theory Spec2Isabelle
  imports Main
begin

section \<open>Python strings\<close>

text \<open>
  A Python \<open>str\<close> is a sequence of Unicode code points, modelled as a list of naturals.
  Literals of the source are written \<open>lit ''...''\<close>.  The string operations of the source
  are modelled concretely on ASCII; what Python's Unicode database decides for code points
  from 128 on (\<open>str.isalnum\<close>, \<open>str.isspace\<close>, \<open>str.lower\<close>) and what the
  content-analysis service answers are not code of the repository: they are the fields of a
  \<open>runtime\<close> record every function takes.
\<close>

type_synonym ustr = "nat list"

definition lit :: "string \<Rightarrow> ustr" where
  "lit s = map of_char s"

datatype ai_outcome = Content ustr | Raises ustr

record runtime =
  uni_alnum :: "nat \<Rightarrow> bool"
  uni_space :: "nat \<Rightarrow> bool"
  uni_lower :: "ustr \<Rightarrow> ustr"
  chat_create :: "nat \<Rightarrow> ustr \<times> ustr \<times> ustr \<Rightarrow> ai_outcome"

definition is_ascii :: "ustr \<Rightarrow> bool" where
  "is_ascii s = list_all (\<lambda>c. c < 128) s"

definition ascii_alnum :: "nat \<Rightarrow> bool" where
  "ascii_alnum c = ((48 \<le> c \<and> c \<le> 57) \<or> (65 \<le> c \<and> c \<le> 90) \<or> (97 \<le> c \<and> c \<le> 122))"

text \<open>The class \<open>\w\<close> of \<open>re\<close> on a \<open>str\<close> pattern: alphanumeric or underscore.\<close>

definition is_word :: "runtime \<Rightarrow> nat \<Rightarrow> bool" where
  "is_word rt c = (if c < 128 then ascii_alnum c \<or> c = 95 else uni_alnum rt c)"

definition is_space :: "runtime \<Rightarrow> nat \<Rightarrow> bool" where
  "is_space rt c = (if c < 128 then (9 \<le> c \<and> c \<le> 13) \<or> (28 \<le> c \<and> c \<le> 32) else uni_space rt c)"

definition ascii_lower :: "nat \<Rightarrow> nat" where
  "ascii_lower c = (if 65 \<le> c \<and> c \<le> 90 then c + 32 else c)"

definition py_lower :: "runtime \<Rightarrow> ustr \<Rightarrow> ustr" where
  "py_lower rt s = (if is_ascii s then map ascii_lower s else uni_lower rt s)"

definition py_strip :: "runtime \<Rightarrow> ustr \<Rightarrow> ustr" where
  "py_strip rt s = rev (dropWhile (is_space rt) (rev (dropWhile (is_space rt) s)))"

definition startswith :: "ustr \<Rightarrow> ustr \<Rightarrow> bool" where
  "startswith s p = (take (length p) s = p)"

text \<open>\<open>p in s\<close> on strings: \<open>p\<close> occurs in \<open>s\<close> as a substring.\<close>

fun contains :: "ustr \<Rightarrow> ustr \<Rightarrow> bool" where
  "contains [] p = (p = [])"
| "contains (c # s) p = (startswith (c # s) p \<or> contains s p)"

text \<open>\<open>s.replace(old, new)\<close> for the non-empty \<open>old\<close> the source passes.\<close>

function py_replace :: "ustr \<Rightarrow> ustr \<Rightarrow> ustr \<Rightarrow> ustr" where
  "py_replace old new [] = []"
| "py_replace old new (c # s) =
     (if old \<noteq> [] \<and> startswith (c # s) old
      then new @ py_replace old new (drop (length old - 1) s)
      else c # py_replace old new s)"
  by pat_completeness auto
termination
  by (relation "measure (\<lambda>(old, new, s). length s)") auto

text \<open>\<open>str(n)\<close> of a non-negative integer: its decimal digits.\<close>

fun str_nat :: "nat \<Rightarrow> ustr" where
  "str_nat n = (if n < 10 then [48 + n] else str_nat (n div 10) @ [48 + n mod 10])"

declare str_nat.simps [simp del]

text \<open>
  \<open>pathlib\<close>'s \<open>suffix\<close> and \<open>stem\<close> of a file name: split at the last dot, unless
  that dot is the first or the last character.
\<close>

definition rfind :: "nat \<Rightarrow> ustr \<Rightarrow> nat option" where
  "rfind c s =
     (if c \<in> set s then Some (length s - 1 - length (takeWhile (\<lambda>x. x \<noteq> c) (rev s)))
      else None)"

definition py_suffix :: "ustr \<Rightarrow> ustr" where
  "py_suffix nm =
     (case rfind 46 nm of
        Some i \<Rightarrow> if 0 < i \<and> i < length nm - 1 then drop i nm else []
      | None \<Rightarrow> [])"

definition py_stem :: "ustr \<Rightarrow> ustr" where
  "py_stem nm =
     (case rfind 46 nm of
        Some i \<Rightarrow> if 0 < i \<and> i < length nm - 1 then take i nm else nm
      | None \<Rightarrow> nm)"

text \<open>\<open>re.sub(r'[^\w\-_]', '_', s)\<close>: every character outside the class becomes an underscore.\<close>

definition re_sub_clean :: "runtime \<Rightarrow> ustr \<Rightarrow> ustr" where
  "re_sub_clean rt s = map (\<lambda>c. if is_word rt c \<or> c = 45 \<or> c = 95 then c else 95) s"

section \<open>Directory entries\<close>

text \<open>
  What the passes can observe of one entry of a directory.  \<open>Regular\<close> is a regular file,
  \<open>Symlink\<close> a symbolic link to one (\<open>is_file\<close> follows links), \<open>Subdir\<close> anything
  that exists and is not a file, \<open>Dangling\<close> a link whose target is missing
  (\<open>exists()\<close> is false for it).  The remaining fields are what the external collaborators
  return for the file: the MIME type sniffed, the EXIF \<open>DateTime\<close> tag, the text a read
  yields (\<open>None\<close> when the read raises), and whether \<open>stat\<close> and \<open>shutil.move\<close>
  raise an \<open>OSError\<close> on it.
\<close>

datatype kind = Regular | Symlink | Subdir | Dangling

record entry =
  ename :: ustr
  ekind :: kind
  mime :: "ustr option"
  exif_datetime :: "ustr option"
  readable :: "ustr option"
  stat_fails :: bool
  move_fails :: bool

definition is_file :: "entry \<Rightarrow> bool" where
  "is_file f = (ekind f = Regular \<or> ekind f = Symlink)"

definition is_symlink :: "entry \<Rightarrow> bool" where
  "is_symlink f = (ekind f = Symlink \<or> ekind f = Dangling)"

definition entry_exists :: "entry \<Rightarrow> bool" where
  "entry_exists f = (ekind f \<noteq> Dangling)"

section \<open>Classifier\<close>

definition file_categories :: "(ustr \<times> ustr list) list" where
  "file_categories =
    [(lit ''Images'', map lit [''.jpg'', ''.jpeg'', ''.png'', ''.gif'', ''.bmp'', ''.tiff'', ''.svg'', ''.webp'', ''.ico'']),
     (lit ''Documents'', map lit [''.pdf'', ''.doc'', ''.docx'', ''.txt'', ''.rtf'', ''.odt'', ''.pages'']),
     (lit ''Spreadsheets'', map lit [''.xls'', ''.xlsx'', ''.csv'', ''.numbers'', ''.ods'']),
     (lit ''Presentations'', map lit [''.ppt'', ''.pptx'', ''.key'', ''.odp'']),
     (lit ''Audio'', map lit [''.mp3'', ''.wav'', ''.aac'', ''.flac'', ''.ogg'', ''.m4a'']),
     (lit ''Video'', map lit [''.mp4'', ''.avi'', ''.mov'', ''.mkv'', ''.wmv'', ''.flv'', ''.webm'', ''.m4v'']),
     (lit ''Archives'', map lit [''.zip'', ''.rar'', ''.7z'', ''.tar'', ''.gz'', ''.dmg'', ''.pkg'']),
     (lit ''Code'', map lit [''.py'', ''.js'', ''.html'', ''.css'', ''.java'', ''.cpp'', ''.c'', ''.php'', ''.rb'', ''.go'', ''.swift'']),
     (lit ''Data'', map lit [''.json'', ''.xml'', ''.yaml'', ''.yml'', ''.sql'', ''.db'', ''.sqlite''])]"

definition system_files :: "ustr list" where
  "system_files = map lit [''.DS_Store'', ''.localized'', ''Thumbs.db'', ''.Trashes'', ''.fseventsd'']"

definition is_system_file :: "entry \<Rightarrow> bool" where
  "is_system_file f =
     (ename f \<in> set system_files \<or> startswith (ename f) (lit ''.'') \<or> is_symlink f)"

text \<open>\<open>mime_type or "Unknown"\<close>: \<open>None\<close> and the empty string are both falsy.\<close>

definition mime_or_unknown :: "ustr option \<Rightarrow> ustr" where
  "mime_or_unknown m = (case m of None \<Rightarrow> lit ''Unknown'' | Some s \<Rightarrow> if s = [] then lit ''Unknown'' else s)"

text \<open>The first category of the table, in its order, whose extensions hold \<open>ext\<close>.\<close>

fun categorize :: "(ustr \<times> ustr list) list \<Rightarrow> ustr \<Rightarrow> ustr option" where
  "categorize [] ext = None"
| "categorize ((category, extensions) # rest) ext =
     (if ext \<in> set extensions then Some category else categorize rest ext)"

definition get_file_type :: "runtime \<Rightarrow> entry \<Rightarrow> ustr \<times> ustr" where
  "get_file_type rt f =
     (if \<not> is_file f then (lit ''Unknown'', lit ''Other'')
      else
        let ext = py_lower rt (py_suffix (ename f));
            mime_type = mime f
        in case categorize file_categories ext of
             Some category \<Rightarrow> (mime_or_unknown mime_type, category)
           | None \<Rightarrow> (mime_or_unknown mime_type, lit ''Other''))"

section \<open>The organizer's state\<close>

text \<open>
  Paths are relative to the scanned root: a list of components.  The scanned folder holds
  files and sub-folders in the order \<open>iterdir\<close> lists them; a sub-folder is modelled with
  its direct entries only (the passes never look deeper).  The \<open>world\<close> is the organizer
  object together with what it acts on: whether the AI client is set, the requests sent to
  the content-analysis service so far, the lines logged at level INFO or above (the level
  \<open>setup_logging\<close> configures), the scanned folder and the JSON action log.
\<close>

type_synonym path = "ustr list"

datatype node = File entry | Folder ustr "entry list"

datatype error = StatError ustr | MoveError path path | FileExistsError path

datatype change = Category_change ustr ustr | Name_change ustr ustr

record metadata =
  original_name :: ustr
  extension :: ustr
  photo_date :: "ustr option"

datatype action =
    Organized path path ustr ustr ustr ustr metadata
  | Reanalysis path path ustr ustr ustr ustr "change list" ustr metadata

datatype level = INFO | WARNING | ERROR

datatype message =
    Invalid_api_key ustr
  | Check_api_key
  | Quota_exceeded ustr
  | Check_billing
  | Model_error ustr ustr
  | Ai_failed ustr ustr
  | Folder_missing
  | Processing_folder
  | Created_folder path
  | Found_files nat
  | Processing ustr ustr ustr
  | Moved ustr path
  | Error_processing ustr error
  | Reanalyzing_in
  | No_organized_folders
  | Reanalyzing_category ustr
  | Reanalyzing ustr
  | Dry_run_would_change ustr "change list"
  | Updated "change list"
  | Error_reanalyzing ustr error
  | Summary bool nat nat nat nat

record world =
  ai_client :: bool
  ai_requests :: "(ustr \<times> ustr \<times> ustr) list"
  logger :: "(level \<times> message) list"
  root_exists :: bool
  root :: "node list"
  actions_log :: "action list"

definition log_line :: "level \<Rightarrow> message \<Rightarrow> world \<Rightarrow> world" where
  "log_line lv m w = w\<lparr>logger := logger w @ [(lv, m)]\<rparr>"

section \<open>Content analysis and naming\<close>

text \<open>
  \<open>analyze_content_with_ai\<close>.  The request carries the stem, the suffix and the first 500
  characters of the preview; the service's answer depends on the request and on how many
  requests came before.  \<open>Content c\<close> is \<open>response.choices[0].message.content\<close>;
  \<open>Raises e\<close> is any exception of the \<open>try\<close> block, with \<open>str(e)\<close>.
\<close>

definition analyze_content_with_ai :: "runtime \<Rightarrow> world \<Rightarrow> ustr \<Rightarrow> ustr \<Rightarrow> ustr \<times> world" where
  "analyze_content_with_ai rt w fname content_preview =
     (if \<not> ai_client w then ([], w)
      else
        let request = (py_stem fname, py_suffix fname, take 500 content_preview);
            w1 = w\<lparr>ai_requests := ai_requests w @ [request]\<rparr>
        in case chat_create rt (length (ai_requests w)) request of
             Content c \<Rightarrow> (re_sub_clean rt (py_strip rt c), w1)
           | Raises e \<Rightarrow>
               let error_msg = py_lower rt e in
               if contains error_msg (lit ''invalid_api_key'') \<or> contains error_msg (lit ''401'')
               then ([], (log_line ERROR Check_api_key (log_line ERROR (Invalid_api_key fname) w1))
                           \<lparr>ai_client := False\<rparr>)
               else if contains error_msg (lit ''insufficient_quota'') \<or> contains error_msg (lit ''429'')
               then ([], log_line ERROR Check_billing (log_line ERROR (Quota_exceeded fname) w1))
               else if contains error_msg (lit ''model'')
               then ([], log_line ERROR (Model_error fname e) w1)
               else ([], log_line WARNING (Ai_failed fname e) w1))"

text \<open>
  \<open>read_file_content\<close>: the first 1000 characters of a text-like file, the extracted text
  of a PDF, the empty string for anything else and on any failure.
\<close>

definition read_file_content :: "runtime \<Rightarrow> entry \<Rightarrow> ustr" where
  "read_file_content rt f =
     (let ext = py_lower rt (py_suffix (ename f)) in
      if ext \<in> set (map lit [''.txt'', ''.md'', ''.py'', ''.js'', ''.html'', ''.css'', ''.json'', ''.xml'', ''.csv''])
           \<or> ext = lit ''.pdf''
      then (case readable f of None \<Rightarrow> [] | Some t \<Rightarrow> take 1000 t)
      else [])"

text \<open>
  \<open>extract_metadata\<close>: \<open>stat\<close> may raise; the EXIF date is looked for in JPEG and TIFF
  files only.  Size and timestamps play no part in any decision and are left out.
\<close>

definition extract_metadata :: "runtime \<Rightarrow> entry \<Rightarrow> error + metadata" where
  "extract_metadata rt f =
     (if stat_fails f then Inl (StatError (ename f))
      else Inr \<lparr>original_name = ename f,
                extension = py_lower rt (py_suffix (ename f)),
                photo_date =
                  (if py_lower rt (py_suffix (ename f)) \<in> set (map lit [''.jpg'', ''.jpeg'', ''.tiff''])
                   then exif_datetime f else None)\<rparr>)"

text \<open>
  \<open>re.findall(r'\b[A-Za-z]{4,}\b', s)\<close>: a match starts and ends at a word boundary, so
  it is a maximal run of \<open>\w\<close> characters; the run matches when it has at least four
  characters, all of them ASCII letters.
\<close>

fun word_runs :: "runtime \<Rightarrow> ustr \<Rightarrow> ustr \<Rightarrow> ustr list" where
  "word_runs rt acc [] = (if acc = [] then [] else [rev acc])"
| "word_runs rt acc (c # s) =
     (if is_word rt c then word_runs rt (c # acc) s
      else (if acc = [] then [] else [rev acc]) @ word_runs rt [] s)"

definition ascii_letter :: "nat \<Rightarrow> bool" where
  "ascii_letter c = ((65 \<le> c \<and> c \<le> 90) \<or> (97 \<le> c \<and> c \<le> 122))"

definition re_findall_words :: "runtime \<Rightarrow> ustr \<Rightarrow> ustr list" where
  "re_findall_words rt s = filter (\<lambda>w. 4 \<le> length w \<and> list_all ascii_letter w) (word_runs rt [] s)"

fun py_join :: "ustr \<Rightarrow> ustr list \<Rightarrow> ustr" where
  "py_join sep [] = []"
| "py_join sep [x] = x"
| "py_join sep (x # y # ys) = x @ sep @ py_join sep (y # ys)"

text \<open>
  \<open>generate_smart_filename\<close>.  \<open>fallback_name\<close> is the part of its body after the AI
  attempt (metadata, words of the content, the cleaned stem), which touches no state.
\<close>

definition fallback_name :: "runtime \<Rightarrow> ustr \<Rightarrow> metadata \<Rightarrow> ustr \<Rightarrow> ustr" where
  "fallback_name rt fname md content =
     (let base_name = py_stem fname;
          ext = py_lower rt (py_suffix fname);
          words = re_findall_words rt (take 200 content)
      in case photo_date md of
           Some d \<Rightarrow> lit ''photo_'' @ py_replace (lit '' '') (lit ''_'') (py_replace (lit '':'') [] d)
         | None \<Rightarrow>
             if content \<noteq> [] \<and> ext \<in> set (map lit [''.txt'', ''.md'', ''.pdf'', ''.doc'', ''.docx''])
                  \<and> 2 \<le> length words
             then py_lower rt (py_join (lit ''_'') (take 3 words))
             else if ext \<in> set (map lit [''.py'', ''.js'', ''.html'', ''.css'', ''.java'', ''.cpp''])
             then re_sub_clean rt base_name
             else re_sub_clean rt base_name)"

definition generate_smart_filename :: "runtime \<Rightarrow> world \<Rightarrow> ustr \<Rightarrow> metadata \<Rightarrow> ustr \<Rightarrow> ustr \<times> world" where
  "generate_smart_filename rt w fname md content =
     (if content \<noteq> [] \<and> ai_client w
      then
        let (ai_suggestion, w1) = analyze_content_with_ai rt w fname content in
        if ai_suggestion \<noteq> [] \<and> 3 < length ai_suggestion then (ai_suggestion, w1)
        else (fallback_name rt fname md content, w1)
      else (fallback_name rt fname md content, w))"

section \<open>The scanned folder\<close>

fun node_name :: "node \<Rightarrow> ustr" where
  "node_name (File e) = ename e"
| "node_name (Folder d es) = d"

definition lookup_node :: "world \<Rightarrow> ustr \<Rightarrow> node option" where
  "lookup_node w d = find (\<lambda>n. node_name n = d) (root w)"

definition is_folder :: "world \<Rightarrow> ustr \<Rightarrow> bool" where
  "is_folder w d = (case lookup_node w d of Some (Folder _ _) \<Rightarrow> True | _ \<Rightarrow> False)"

text \<open>\<open>iterdir\<close> of the sub-folder \<open>d\<close> of the scanned folder.\<close>

definition folder_listing :: "world \<Rightarrow> ustr \<Rightarrow> entry list" where
  "folder_listing w d = (case lookup_node w d of Some (Folder _ es) \<Rightarrow> es | _ \<Rightarrow> [])"

text \<open>
  The names \<open>nm\<close> for which \<open>(folder / nm).exists()\<close> holds: the entries that are not
  dangling links, and the empty name, which denotes the folder itself.
\<close>

definition existing_names :: "world \<Rightarrow> ustr \<Rightarrow> ustr list" where
  "existing_names w d = map ename (filter entry_exists (folder_listing w d))"

definition exists_in :: "ustr list \<Rightarrow> ustr \<Rightarrow> bool" where
  "exists_in existing nm = (nm = [] \<or> nm \<in> set existing)"

text \<open>
  \<open>mkdir(exist_ok=True)\<close> of \<open>d\<close> under the scanned folder: nothing happens when a
  directory of that name is there, \<open>FileExistsError\<close> when anything else of that name is.
  A procedure that can raise returns the world it reached and the exception, if any.
\<close>

definition mkdir_exist_ok :: "world \<Rightarrow> ustr \<Rightarrow> world \<times> error option" where
  "mkdir_exist_ok w d =
     (case lookup_node w d of
        None \<Rightarrow> (w\<lparr>root := root w @ [Folder d []]\<rparr>, None)
      | Some (Folder _ _) \<Rightarrow> (w, None)
      | Some (File _) \<Rightarrow> (w, Some (FileExistsError [d])))"

fun create_category_folders :: "world \<Rightarrow> ustr list \<Rightarrow> world \<times> error option" where
  "create_category_folders w [] = (w, None)"
| "create_category_folders w (category # rest) =
     (case mkdir_exist_ok w (lit ''Organized_'' @ category) of
        (w1, Some e) \<Rightarrow> (w1, Some e)
      | (w1, None) \<Rightarrow>
          create_category_folders (log_line INFO (Created_folder [lit ''Organized_'' @ category]) w1) rest)"

definition create_organized_folders :: "world \<Rightarrow> world \<times> error option" where
  "create_organized_folders w =
     (case create_category_folders w (map fst file_categories) of
        (w1, Some e) \<Rightarrow> (w1, Some e)
      | (w1, None) \<Rightarrow> mkdir_exist_ok w1 (lit ''Organized_Other''))"

text \<open>
  \<open>shutil.move\<close> of the entry \<open>f\<close> of the directory \<open>src_dir\<close> (the scanned folder
  itself when \<open>src_dir\<close> is empty) to the name \<open>new_filename\<close> in the sub-folder
  \<open>dest_folder\<close>.  It raises when the entry cannot be moved, when the destination folder
  is missing, and when the name is not a single path component (a name with a slash points
  into a nested directory, and the model has none).  A rename replaces a dangling link of
  the same name; the moved entry is listed last in its new folder.
\<close>

definition valid_component :: "ustr \<Rightarrow> bool" where
  "valid_component nm = (nm \<noteq> [] \<and> 47 \<notin> set nm \<and> 0 \<notin> set nm)"

definition update_folder :: "ustr \<Rightarrow> (entry list \<Rightarrow> entry list) \<Rightarrow> node list \<Rightarrow> node list" where
  "update_folder d g ns =
     map (\<lambda>n. case n of Folder m es \<Rightarrow> if m = d then Folder m (g es) else n | File e \<Rightarrow> n) ns"

definition remove_named :: "ustr \<Rightarrow> entry list \<Rightarrow> entry list" where
  "remove_named nm es = filter (\<lambda>x. ename x \<noteq> nm) es"

definition add_entry :: "entry \<Rightarrow> entry list \<Rightarrow> entry list" where
  "add_entry e es = remove_named (ename e) es @ [e]"

definition remove_at :: "path \<Rightarrow> ustr \<Rightarrow> node list \<Rightarrow> node list" where
  "remove_at src_dir nm ns =
     (case src_dir of
        [] \<Rightarrow> filter (\<lambda>n. case n of File e \<Rightarrow> ename e \<noteq> nm | Folder _ _ \<Rightarrow> True) ns
      | d # _ \<Rightarrow> update_folder d (remove_named nm) ns)"

definition shutil_move :: "world \<Rightarrow> path \<Rightarrow> entry \<Rightarrow> ustr \<Rightarrow> ustr \<Rightarrow> error + world" where
  "shutil_move w src_dir f dest_folder new_filename =
     (if move_fails f \<or> \<not> valid_component new_filename \<or> \<not> is_folder w dest_folder
      then Inl (MoveError (src_dir @ [ename f]) [dest_folder, new_filename])
      else Inr (w\<lparr>root := update_folder dest_folder (add_entry (f\<lparr>ename := new_filename\<rparr>))
                           (remove_at src_dir (ename f) (root w))\<rparr>))"

definition save_action_log :: "action \<Rightarrow> world \<Rightarrow> world" where
  "save_action_log a w = w\<lparr>actions_log := actions_log w @ [a]\<rparr>"

section \<open>Conflict resolution\<close>

text \<open>
  Both passes look for a free name by appending \<open>_1\<close>, \<open>_2\<close>, ... to the base name.
  The loops have no bound in the source; they end because a folder holds finitely many
  names and the candidates are pairwise different.
\<close>

definition suffixed :: "ustr \<Rightarrow> ustr \<Rightarrow> nat \<Rightarrow> ustr" where
  "suffixed new_name suffix counter = new_name @ lit ''_'' @ str_nat counter @ suffix"

definition digits_val :: "ustr \<Rightarrow> nat" where
  "digits_val s = foldl (\<lambda>a c. 10 * a + (c - 48)) 0 s"

definition taken_from :: "ustr list \<Rightarrow> ustr \<Rightarrow> ustr \<Rightarrow> nat \<Rightarrow> nat" where
  "taken_from existing b e k = card {n. k \<le> n \<and> suffixed b e n \<in> set existing}"

lemma digits_val_str_nat: "digits_val (str_nat n) = n"
proof (induction n rule: str_nat.induct)
  case (1 n)
  show ?case
  proof (cases "n < 10")
    case True
    then show ?thesis by (simp add: str_nat.simps[of n] digits_val_def)
  next
    case False
    with 1 have "digits_val (str_nat (n div 10)) = n div 10" by simp
    with False show ?thesis by (simp add: str_nat.simps[of n] digits_val_def)
  qed
qed

lemma str_nat_inj: "str_nat m = str_nat n \<Longrightarrow> m = n"
  by (metis digits_val_str_nat)

lemma suffixed_inj: "suffixed b e m = suffixed b e n \<Longrightarrow> m = n"
  by (simp add: suffixed_def str_nat_inj)

lemma suffixed_nonempty: "suffixed b e n \<noteq> []"
  by (simp add: suffixed_def lit_def)

lemma finite_taken: "finite {n. suffixed b e n \<in> set existing}"
proof -
  have "{n. suffixed b e n \<in> set existing} = suffixed b e -` set existing" by auto
  moreover have "inj (suffixed b e)" by (auto simp: inj_on_def dest: suffixed_inj)
  ultimately show ?thesis by (simp add: finite_vimageI)
qed

lemma taken_from_step:
  "taken_from existing b e (Suc k) \<le> taken_from existing b e k"
  "suffixed b e k \<in> set existing \<Longrightarrow> taken_from existing b e (Suc k) < taken_from existing b e k"
proof -
  let ?S = "\<lambda>k. {n. k \<le> n \<and> suffixed b e n \<in> set existing}"
  have fin: "finite (?S k)" for k
    by (rule finite_subset[OF _ finite_taken[of b e existing]]) auto
  have sub: "?S (Suc k) \<subseteq> ?S k" by auto
  show "taken_from existing b e (Suc k) \<le> taken_from existing b e k"
    unfolding taken_from_def by (rule card_mono[OF fin sub])
  assume "suffixed b e k \<in> set existing"
  then have "k \<in> ?S k" "k \<notin> ?S (Suc k)" by auto
  with sub have "?S (Suc k) \<subset> ?S k" by blast
  then show "taken_from existing b e (Suc k) < taken_from existing b e k"
    unfolding taken_from_def by (rule psubset_card_mono[OF fin])
qed

lemma conflict_measure_step:
  "exists_in existing (suffixed b e k) \<Longrightarrow> taken_from existing b e (Suc k) < taken_from existing b e k"
  "2 * taken_from existing b e (Suc k) < Suc (2 * taken_from existing b e k)"
  using taken_from_step[where existing = existing and b = b and e = e and k = k]
  by (auto simp: exists_in_def suffixed_nonempty)

text \<open>The loop of \<open>organize_files_in_folder\<close>: \<open>while dest_path.exists()\<close>.\<close>

function organize_conflict_loop :: "ustr list \<Rightarrow> ustr \<Rightarrow> ustr \<Rightarrow> ustr \<Rightarrow> nat \<Rightarrow> ustr" where
  "organize_conflict_loop existing new_name suffix new_filename counter =
     (if exists_in existing new_filename
      then organize_conflict_loop existing new_name suffix (suffixed new_name suffix counter) (counter + 1)
      else new_filename)"
  by pat_completeness auto
termination
  by (relation "measure (\<lambda>(existing, new_name, suffix, new_filename, counter).
          2 * taken_from existing new_name suffix counter + (if exists_in existing new_filename then 1 else 0))")
     (simp_all add: conflict_measure_step)

text \<open>
  The loop of \<open>reanalyze_organized_files\<close>:
  \<open>while new_dest_path.exists() and new_dest_path != file_path\<close>.
\<close>

function reanalyze_conflict_loop ::
  "ustr list \<Rightarrow> ustr \<Rightarrow> path \<Rightarrow> ustr \<Rightarrow> ustr \<Rightarrow> ustr \<Rightarrow> nat \<Rightarrow> ustr" where
  "reanalyze_conflict_loop existing new_dest_folder file_path new_name suffix new_filename counter =
     (if exists_in existing new_filename \<and> [new_dest_folder, new_filename] \<noteq> file_path
      then reanalyze_conflict_loop existing new_dest_folder file_path new_name suffix
             (suffixed new_name suffix counter) (counter + 1)
      else new_filename)"
  by pat_completeness auto
termination
  by (relation "measure (\<lambda>(existing, new_dest_folder, file_path, new_name, suffix, new_filename, counter).
          2 * taken_from existing new_name suffix counter + (if exists_in existing new_filename then 1 else 0))")
     (simp_all add: conflict_measure_step)

declare organize_conflict_loop.simps [simp del]
declare reanalyze_conflict_loop.simps [simp del]

section \<open>OrganizePass\<close>

text \<open>
  The body of the \<open>for\<close> loop of \<open>organize_files_in_folder\<close>, inside its \<open>try\<close>:
  the world reached, and the exception that left the body, if any.
\<close>

definition organize_file :: "runtime \<Rightarrow> world \<Rightarrow> entry \<Rightarrow> world \<times> error option" where
  "organize_file rt w f =
     (if is_system_file f then (w, None)
      else
        let (mime_type, category) = get_file_type rt f;
            w1 = log_line INFO (Processing (ename f) mime_type category) w
        in case extract_metadata rt f of
             Inl e \<Rightarrow> (w1, Some e)
           | Inr md \<Rightarrow>
               let content = read_file_content rt f;
                   (new_name, w2) = generate_smart_filename rt w1 (ename f) md content;
                   suffix = py_suffix (ename f);
                   dest_folder = lit ''Organized_'' @ category;
                   new_filename = organize_conflict_loop (existing_names w2 dest_folder)
                                    new_name suffix (new_name @ suffix) 1
               in case shutil_move w2 [] f dest_folder new_filename of
                    Inl e \<Rightarrow> (w2, Some e)
                  | Inr w3 \<Rightarrow>
                      (save_action_log
                         (Organized [ename f] [dest_folder, new_filename] (ename f) new_filename
                            category mime_type md)
                         (log_line INFO (Moved (ename f) [dest_folder, new_filename]) w3),
                       None))"

text \<open>The \<open>for\<close> loop with its \<open>except Exception\<close>: the error is logged, the loop goes on.\<close>

fun organize_loop :: "runtime \<Rightarrow> world \<Rightarrow> entry list \<Rightarrow> world" where
  "organize_loop rt w [] = w"
| "organize_loop rt w (f # files) =
     (case organize_file rt w f of
        (w1, None) \<Rightarrow> organize_loop rt w1 files
      | (w1, Some e) \<Rightarrow> organize_loop rt (log_line ERROR (Error_processing (ename f) e) w1) files)"

definition root_files :: "world \<Rightarrow> entry list" where
  "root_files w =
     concat (map (\<lambda>n. case n of
                        File f \<Rightarrow> if is_file f \<and> \<not> startswith (ename f) (lit ''Organized_'') then [f] else []
                      | Folder _ _ \<Rightarrow> [])
                 (root w))"

definition organize_files_in_folder :: "runtime \<Rightarrow> world \<Rightarrow> world \<times> error option" where
  "organize_files_in_folder rt w =
     (if \<not> root_exists w then (log_line WARNING Folder_missing w, None)
      else
        case create_organized_folders (log_line INFO Processing_folder w) of
          (w1, Some e) \<Rightarrow> (w1, Some e)
        | (w1, None) \<Rightarrow>
            let files = root_files w1;
                w2 = log_line INFO (Found_files (length files)) w1
            in (organize_loop rt w2 files, None))"

section \<open>ReconcilePass\<close>

record stats =
  files_processed :: nat
  files_renamed :: nat
  files_moved :: nat
  ai_improvements :: nat

text \<open>
  The branch \<open>if needs_category_move or needs_rename\<close> of the loop body of
  \<open>reanalyze_organized_files\<close>.  The counters are local to the pass and travel with the
  world.  Its steps, in the order of the source: the destination folder (created when the
  category changed), the conflict loop, the planned change with its two counters, the move
  in a live run, the count of AI improvements.
\<close>

definition ensure_dest_folder :: "bool \<Rightarrow> world \<Rightarrow> ustr \<Rightarrow> world \<times> error option" where
  "ensure_dest_folder needs_category_move w new_dest_folder =
     (if needs_category_move then mkdir_exist_ok w new_dest_folder else (w, None))"

definition planned_change :: "bool \<Rightarrow> bool \<Rightarrow> ustr \<Rightarrow> ustr \<Rightarrow> ustr \<Rightarrow> ustr \<Rightarrow> change list" where
  "planned_change needs_category_move needs_rename current_category new_category fname new_filename =
     (if needs_category_move then [Category_change current_category new_category] else []) @
     (if needs_rename then [Name_change fname new_filename] else [])"

definition count_change :: "bool \<Rightarrow> bool \<Rightarrow> stats \<Rightarrow> stats" where
  "count_change needs_category_move needs_rename st =
     st\<lparr>files_moved := files_moved st + (if needs_category_move then 1 else 0),
        files_renamed := files_renamed st + (if needs_rename then 1 else 0)\<rparr>"

definition count_improvement :: "bool \<Rightarrow> ustr \<Rightarrow> ustr \<Rightarrow> stats \<Rightarrow> stats" where
  "count_improvement needs_rename new_name stem st =
     (if needs_rename \<and> length stem + 5 < length new_name
      then st\<lparr>ai_improvements := ai_improvements st + 1\<rparr> else st)"

definition apply_change ::
  "bool \<Rightarrow> ustr \<Rightarrow> ustr \<Rightarrow> entry \<Rightarrow> metadata \<Rightarrow> ustr \<Rightarrow> ustr \<Rightarrow> ustr \<Rightarrow> world \<times> stats
     \<Rightarrow> (world \<times> stats) \<times> error option" where
  "apply_change dry_run org_folder current_category f md mime_type new_category new_name ws =
     (let (w, st) = ws;
          suffix = py_suffix (ename f);
          needs_category_move = (new_category \<noteq> current_category);
          needs_rename = (new_name @ suffix \<noteq> ename f);
          new_dest_folder = (if needs_category_move then lit ''Organized_'' @ new_category else org_folder)
      in case ensure_dest_folder needs_category_move w new_dest_folder of
           (w1, Some e) \<Rightarrow> ((w1, st), Some e)
         | (w1, None) \<Rightarrow>
             let new_filename = reanalyze_conflict_loop (existing_names w1 new_dest_folder)
                                  new_dest_folder [org_folder, ename f] new_name suffix (new_name @ suffix) 1;
                 change_type = planned_change needs_category_move needs_rename current_category
                                 new_category (ename f) new_filename;
                 st1 = count_change needs_category_move needs_rename st;
                 st2 = count_improvement needs_rename new_name (py_stem (ename f)) st1
             in if dry_run
                then ((log_line INFO (Dry_run_would_change (ename f) change_type) w1, st2), None)
                else if [new_dest_folder, new_filename] \<noteq> [org_folder, ename f]
                then (case shutil_move w1 [org_folder] f new_dest_folder new_filename of
                        Inl e \<Rightarrow> ((w1, st1), Some e)
                      | Inr w2 \<Rightarrow>
                          ((save_action_log
                              (Reanalysis [org_folder, ename f] [new_dest_folder, new_filename]
                                 (ename f) new_filename current_category new_category change_type
                                 mime_type md)
                              (log_line INFO (Updated change_type) w2),
                            st2), None))
                else ((w1, st2), None))"

definition reanalyze_file ::
  "runtime \<Rightarrow> bool \<Rightarrow> ustr \<Rightarrow> ustr \<Rightarrow> world \<times> stats \<Rightarrow> entry \<Rightarrow> (world \<times> stats) \<times> error option" where
  "reanalyze_file rt dry_run org_folder current_category ws f =
     (let (w, st) = ws;
          st1 = st\<lparr>files_processed := files_processed st + 1\<rparr>
      in if is_system_file f then ((w, st1), None)
         else
           let w1 = log_line INFO (Reanalyzing (ename f)) w;
               (mime_type, new_category) = get_file_type rt f
           in case extract_metadata rt f of
                Inl e \<Rightarrow> ((w1, st1), Some e)
              | Inr md \<Rightarrow>
                  let content = read_file_content rt f;
                      (new_name, w2) = generate_smart_filename rt w1 (ename f) md content
                  in if new_category \<noteq> current_category \<or> new_name @ py_suffix (ename f) \<noteq> ename f
                     then apply_change dry_run org_folder current_category f md mime_type
                            new_category new_name (w2, st1)
                     else ((w2, st1), None))"

fun reanalyze_files ::
  "runtime \<Rightarrow> bool \<Rightarrow> ustr \<Rightarrow> ustr \<Rightarrow> world \<times> stats \<Rightarrow> entry list \<Rightarrow> world \<times> stats" where
  "reanalyze_files rt dry_run org_folder current_category ws [] = ws"
| "reanalyze_files rt dry_run org_folder current_category ws (f # files) =
     (case reanalyze_file rt dry_run org_folder current_category ws f of
        (ws1, None) \<Rightarrow> reanalyze_files rt dry_run org_folder current_category ws1 files
      | ((w1, st1), Some e) \<Rightarrow>
          reanalyze_files rt dry_run org_folder current_category
            (log_line ERROR (Error_reanalyzing (ename f) e) w1, st1) files)"

text \<open>
  The loop over the organized folders.  The folders are listed once, before the loop; the
  files of a folder are listed when its turn comes.
\<close>

fun reanalyze_folders :: "runtime \<Rightarrow> bool \<Rightarrow> world \<times> stats \<Rightarrow> ustr list \<Rightarrow> world \<times> stats" where
  "reanalyze_folders rt dry_run ws [] = ws"
| "reanalyze_folders rt dry_run ws (org_folder # rest) =
     (let current_category = py_replace (lit ''Organized_'') [] org_folder;
          w1 = log_line INFO (Reanalyzing_category current_category) (fst ws);
          files = filter is_file (folder_listing w1 org_folder)
      in reanalyze_folders rt dry_run
           (reanalyze_files rt dry_run org_folder current_category (w1, snd ws) files) rest)"

definition organized_folders :: "world \<Rightarrow> ustr list" where
  "organized_folders w =
     concat (map (\<lambda>n. case n of
                        Folder d _ \<Rightarrow> if startswith d (lit ''Organized_'') then [d] else []
                      | File _ \<Rightarrow> [])
                 (root w))"

definition zero_stats :: stats where
  "zero_stats = \<lparr>files_processed = 0, files_renamed = 0, files_moved = 0, ai_improvements = 0\<rparr>"

text \<open>The five lines of the summary are one \<open>Summary\<close> message.\<close>

definition reanalyze_organized_files :: "runtime \<Rightarrow> world \<Rightarrow> bool \<Rightarrow> world \<times> stats option" where
  "reanalyze_organized_files rt w dry_run =
     (if \<not> root_exists w then (log_line WARNING Folder_missing w, None)
      else
        let w1 = log_line INFO Reanalyzing_in w;
            orgs = organized_folders w1
        in if orgs = [] then (log_line INFO No_organized_folders w1, None)
           else
             let (w2, st) = reanalyze_folders rt dry_run (w1, zero_stats) orgs
             in (log_line INFO (Summary dry_run (files_processed st) (files_renamed st)
                                  (files_moved st) (ai_improvements st)) w2,
                 Some st))"

section \<open>Sample inputs\<close>

text \<open>
  \<open>sample_runtime\<close> agrees with CPython on every string evaluated below: U+00E9 (a Latin
  small e with acute accent) is alphanumeric, the strings hold no other character beyond
  ASCII, and the content-analysis service is unreachable.  \<open>offline\<close> is an organizer
  without an AI client in an empty folder.
\<close>

definition sample_runtime :: runtime where
  "sample_runtime =
     \<lparr>uni_alnum = (\<lambda>c. c = 233), uni_space = (\<lambda>c. False), uni_lower = (\<lambda>s. s),
      chat_create = (\<lambda>n request. Raises (lit ''Connection error.''))\<rparr>"

definition offline :: world where
  "offline = \<lparr>ai_client = False, ai_requests = [], logger = [], root_exists = True, root = [],
     actions_log = []\<rparr>"

definition plain_file :: "ustr \<Rightarrow> entry" where
  "plain_file nm = \<lparr>ename = nm, ekind = Regular, mime = None, exif_datetime = None,
     readable = None, stat_fails = False, move_fails = False\<rparr>"

definition reports :: world where
  "reports = offline\<lparr>root := [Folder (lit ''Organized_Documents'')
      [plain_file (lit ''report.pdf''), plain_file (lit ''report_1.pdf'')]]\<rparr>"

text \<open>
  A service that rejects the credential, and an organizer whose AI client is set.
\<close>

definition revoked_runtime :: runtime where
  "revoked_runtime = sample_runtime\<lparr>chat_create := (\<lambda>n request. Raises (lit ''Error code: 401 - invalid_api_key''))\<rparr>"

definition online :: world where
  "online = offline\<lparr>ai_client := True\<rparr>"

text \<open>
  A folder with a file that cannot be moved before a file that can; an organized folder
  holding only a system file; an organized folder with two files of the same content, one
  of them under the name the conflict loop gives the second.
\<close>

definition desk :: world where
  "desk = offline\<lparr>root :=
     [File ((plain_file (lit ''b.pdf''))\<lparr>move_fails := True\<rparr>),
      File (plain_file (lit ''c.py'')),
      Folder (lit ''Organized_Documents'') [],
      Folder (lit ''Organized_Code'') []]\<rparr>"

definition ds_world :: world where
  "ds_world = offline\<lparr>root := [Folder (lit ''Organized_Documents'') [plain_file (lit ''.DS_Store'')]]\<rparr>"

definition twin :: "ustr \<Rightarrow> entry" where
  "twin nm = (plain_file nm)\<lparr>readable := Some (lit ''hello world'')\<rparr>"

definition twins :: world where
  "twins = offline\<lparr>root := [Folder (lit ''Organized_Documents'')
      [twin (lit ''hello_world.txt''), twin (lit ''hello_world_1.txt'')]]\<rparr>"

text \<open>The pattern \<open>^[A-Za-z0-9_-]+$\<close>, and the characters of an EXIF date.\<close>

definition ascii_name_re :: "ustr \<Rightarrow> bool" where
  "ascii_name_re s = (s \<noteq> [] \<and> list_all (\<lambda>c. ascii_alnum c \<or> c = 95 \<or> c = 45) s)"

definition date_char :: "nat \<Rightarrow> bool" where
  "date_char c = ((48 \<le> c \<and> c \<le> 57) \<or> c = 58 \<or> c = 32)"

section \<open>Notions used in the statements\<close>

text \<open>
  The part of the world the content-analysis collaborator can change or be observed through.
\<close>

definition ai_state :: "world \<Rightarrow> bool \<times> (ustr \<times> ustr \<times> ustr) list" where
  "ai_state w = (ai_client w, ai_requests w)"

text \<open>
  The files the log shows were taken up: one \<open>Processing\<close> line of OrganizePass or one
  \<open>Re-analyzing\<close> line of ReconcilePass each.
\<close>

fun taken_msg :: "message \<Rightarrow> ustr list" where
  "taken_msg (Processing nm mt cat) = [nm]"
| "taken_msg (Reanalyzing nm) = [nm]"
| "taken_msg m = []"

definition taken_up :: "world \<Rightarrow> ustr list" where
  "taken_up w = concat (map (\<lambda>line. taken_msg (snd line)) (logger w))"

text \<open>The ten organized folders: one for each category of the table, and \<open>Other\<close>.\<close>

definition organized_names :: "ustr list" where
  "organized_names = map (\<lambda>c. lit ''Organized_'' @ c) (map fst file_categories @ [lit ''Other''])"

section \<open>Properties of the classifier\<close>

lemma inj_lit: "lit a = lit b \<longleftrightarrow> a = b"
  by (auto simp: lit_def inj_on_def list_eq_iff_nth_eq)

lemma categorize_first:
  "(category, extensions) \<in> set tbl \<Longrightarrow> ext \<in> set extensions \<Longrightarrow>
   distinct (concat (map snd tbl)) \<Longrightarrow> categorize tbl ext = Some category"
proof (induction tbl)
  case Nil
  then show ?case by simp
next
  case (Cons row tbl)
  obtain c es where row: "row = (c, es)" by (cases row)
  show ?case
  proof (cases "(category, extensions) = row")
    case True
    with Cons.prems row show ?thesis by simp
  next
    case False
    with Cons.prems have mem: "(category, extensions) \<in> set tbl" by simp
    from Cons.prems(3) row have "set es \<inter> set (concat (map snd tbl)) = {}"
      and dist: "distinct (concat (map snd tbl))" by simp_all
    moreover from mem Cons.prems(2) have "ext \<in> set (concat (map snd tbl))" by force
    ultimately have "ext \<notin> set es" by blast
    with row Cons.IH[OF mem Cons.prems(2) dist] show ?thesis by simp
  qed
qed

lemma categorize_none:
  "ext \<notin> set (concat (map snd tbl)) \<Longrightarrow> categorize tbl ext = None"
  by (induction tbl) auto

lemma categorize_some_mem:
  "categorize tbl ext = Some category \<Longrightarrow> \<exists>extensions. (category, extensions) \<in> set tbl \<and> ext \<in> set extensions"
  by (induction tbl) (auto split: if_splits)

lemma file_categories_distinct: "distinct (concat (map snd file_categories))"
  unfolding file_categories_def by (simp add: inj_lit)


lemmas str_defs = lit_def py_stem_def py_suffix_def rfind_def py_lower_def is_ascii_def
  ascii_lower_def re_sub_clean_def is_word_def ascii_alnum_def startswith_def

text \<open>
  C5.  For a regular file (the only paths the passes classify), an extension listed in the
  category table gives exactly the category the table lists it under, with the MIME hint or
  \<open>Unknown\<close> as label; an extension listed nowhere gives \<open>Other\<close> with the same label.
  \<open>get_file_type\<close> is a total function: it returns a pair on every input.
\<close>

theorem get_file_type_table:
  assumes "is_file f"
  shows "(\<forall>category extensions.
            (category, extensions) \<in> set file_categories \<and>
            py_lower rt (py_suffix (ename f)) \<in> set extensions \<longrightarrow>
            get_file_type rt f = (mime_or_unknown (mime f), category)) \<and>
         (py_lower rt (py_suffix (ename f)) \<notin> set (concat (map snd file_categories)) \<longrightarrow>
            get_file_type rt f = (mime_or_unknown (mime f), lit ''Other''))"
  using assms
  by (auto simp: get_file_type_def Let_def categorize_first[OF _ _ file_categories_distinct]
       categorize_none simp del: set_concat)

theorem get_file_type_table_witness:
  "\<forall>rt. is_file ((plain_file (lit ''Talk.KEY''))\<lparr>mime := Some (lit ''application/zip'')\<rparr>) \<and>
        get_file_type rt ((plain_file (lit ''Talk.KEY''))\<lparr>mime := Some (lit ''application/zip'')\<rparr>)
          = (lit ''application/zip'', lit ''Presentations'') \<and>
        is_file (plain_file (lit ''notes.xyz'')) \<and>
        get_file_type rt (plain_file (lit ''notes.xyz'')) = (lit ''Unknown'', lit ''Other'')"
proof
  fix rt
  let ?talk = "(plain_file (lit ''Talk.KEY''))\<lparr>mime := Some (lit ''application/zip'')\<rparr>"
  let ?notes = "plain_file (lit ''notes.xyz'')"
  have f1: "is_file ?talk" and f2: "is_file ?notes"
    by (simp_all add: plain_file_def is_file_def)
  have e1: "py_lower rt (py_suffix (ename ?talk)) = lit ''.key''"
    and e2: "py_lower rt (py_suffix (ename ?notes)) = lit ''.xyz''"
    by (simp_all add: plain_file_def str_defs)
  have m1: "(lit ''Presentations'', map lit [''.ppt'', ''.pptx'', ''.key'', ''.odp'']) \<in> set file_categories"
    by (simp add: file_categories_def)
  have m2: "lit ''.xyz'' \<notin> set (concat (map snd file_categories))"
    by (simp add: file_categories_def inj_lit)
  have i1: "py_lower rt (py_suffix (ename ?talk)) \<in> set (map lit [''.ppt'', ''.pptx'', ''.key'', ''.odp''])"
    unfolding e1 by simp
  from get_file_type_table[OF f1, of rt] m1 i1
  have "get_file_type rt ?talk = (mime_or_unknown (mime ?talk), lit ''Presentations'')"
    by blast
  moreover from get_file_type_table[OF f2, of rt] m2
  have "get_file_type rt ?notes = (mime_or_unknown (mime ?notes), lit ''Other'')"
    unfolding e2 by blast
  ultimately show "is_file ?talk \<and> get_file_type rt ?talk = (lit ''application/zip'', lit ''Presentations'') \<and>
      is_file ?notes \<and> get_file_type rt ?notes = (lit ''Unknown'', lit ''Other'')"
    using f1 f2 by (simp add: mime_or_unknown_def plain_file_def lit_def)
qed

section \<open>Properties of the namer\<close>

lemma re_sub_clean_chars: "list_all (\<lambda>c. is_word rt c \<or> c = 45) (re_sub_clean rt s)"
  by (induction s) (auto simp: re_sub_clean_def is_word_def)

lemma re_sub_clean_length: "length (re_sub_clean rt s) = length s"
  by (simp add: re_sub_clean_def)

lemma re_sub_clean_ascii: "is_ascii s \<Longrightarrow> is_ascii (re_sub_clean rt s)"
  by (induction s) (auto simp: re_sub_clean_def is_ascii_def)

lemma py_strip_subset: "set (py_strip rt s) \<subseteq> set s"
proof
  fix x assume "x \<in> set (py_strip rt s)"
  then have "x \<in> set (dropWhile (is_space rt) (rev (dropWhile (is_space rt) s)))"
    by (simp add: py_strip_def)
  then have "x \<in> set (rev (dropWhile (is_space rt) s))" by (rule set_dropWhileD)
  then have "x \<in> set (dropWhile (is_space rt) s)" by simp
  then show "x \<in> set s" by (rule set_dropWhileD)
qed

lemma is_ascii_subset: "set t \<subseteq> set s \<Longrightarrow> is_ascii s \<Longrightarrow> is_ascii t"
  by (auto simp: is_ascii_def list_all_iff)

lemma py_replace_subset: "set (py_replace old new s) \<subseteq> set s \<union> set new"
proof (induction old new s rule: py_replace.induct)
  case (1 old new)
  then show ?case by simp
next
  case (2 old new c s)
  have "set (drop (length old - 1) s) \<subseteq> set s" by (rule set_drop_subset)
  with 2 show ?case by (auto simp del: py_replace.simps simp add: py_replace.simps(2)[of old new c s])
qed

lemma py_replace_avoid: "c \<notin> set new \<Longrightarrow> c \<notin> set (py_replace [c] new s)"
  by (induction "[c]" new s rule: py_replace.induct) (auto simp: startswith_def)

lemma word_runs_findall:
  "w \<in> set (re_findall_words rt s) \<Longrightarrow> 4 \<le> length w \<and> list_all ascii_letter w"
  by (simp add: re_findall_words_def)

lemma py_join_chars:
  "\<forall>w\<in>set ws. list_all P w \<Longrightarrow> list_all P sep \<Longrightarrow> list_all P (py_join sep ws)"
  by (induction sep ws rule: py_join.induct) auto

lemma py_join_nonempty: "ws \<noteq> [] \<Longrightarrow> hd ws \<noteq> [] \<Longrightarrow> py_join sep ws \<noteq> []"
  by (induction sep ws rule: py_join.induct) auto

lemma ascii_letter_lower:
  assumes "list_all (\<lambda>c. ascii_letter c \<or> c = 95) s"
  shows "py_lower rt s = map ascii_lower s"
    and "list_all (\<lambda>c. ascii_letter c \<or> c = 95) (map ascii_lower s)"
proof -
  from assms have "is_ascii s"
    by (auto simp: is_ascii_def list_all_iff ascii_letter_def)
  then show "py_lower rt s = map ascii_lower s" by (simp add: py_lower_def)
  from assms show "list_all (\<lambda>c. ascii_letter c \<or> c = 95) (map ascii_lower s)"
    by (auto simp: list_all_iff ascii_letter_def ascii_lower_def)
qed

lemma analyze_result:
  "fst (analyze_content_with_ai rt w fname content) = [] \<or>
   (\<exists>c. ai_client w \<and> chat_create rt (length (ai_requests w)) (py_stem fname, py_suffix fname, take 500 content) = Content c \<and>
        fst (analyze_content_with_ai rt w fname content) = re_sub_clean rt (py_strip rt c))"
  by (auto simp: analyze_content_with_ai_def Let_def split: ai_outcome.splits)


lemma fallback_cases:
  fixes rt fname md content
  defines "nm \<equiv> fallback_name rt fname md content"
  shows "(\<exists>d. photo_date md = Some d \<and> nm = lit ''photo_'' @ py_replace (lit '' '') (lit ''_'') (py_replace (lit '':'') [] d))
       \<or> (\<exists>ws. ws \<noteq> [] \<and> (\<forall>w\<in>set ws. 4 \<le> length w \<and> list_all ascii_letter w) \<and> nm = py_lower rt (py_join (lit ''_'') ws))
       \<or> nm = re_sub_clean rt (py_stem fname)"
proof (cases "photo_date md")
  case (Some d)
  then show ?thesis by (simp add: nm_def fallback_name_def)
next
  case None
  let ?ws = "take 3 (re_findall_words rt (take 200 content))"
  have ws: "\<forall>w\<in>set ?ws. 4 \<le> length w \<and> list_all ascii_letter w"
    using word_runs_findall[of _ rt "take 200 content"] by (meson in_set_takeD)
  show ?thesis
  proof (cases "nm = re_sub_clean rt (py_stem fname)")
    case True
    then show ?thesis by simp
  next
    case False
    with None have nm: "nm = py_lower rt (py_join (lit ''_'') ?ws)"
      and "2 \<le> length (re_findall_words rt (take 200 content))"
      by (simp_all add: nm_def fallback_name_def Let_def split: if_splits)
    then have "?ws \<noteq> []" by auto
    with ws nm show ?thesis by blast
  qed
qed

lemma namer_cases:
  fixes rt w fname md content
  defines "nm \<equiv> fst (generate_smart_filename rt w fname md content)"
  shows "(\<exists>c. chat_create rt (length (ai_requests w)) (py_stem fname, py_suffix fname, take 500 content) = Content c
             \<and> nm = re_sub_clean rt (py_strip rt c) \<and> 3 < length nm)
       \<or> nm = fallback_name rt fname md content"
  using analyze_result[of rt w fname content]
  unfolding nm_def generate_smart_filename_def
  by (auto split: prod.splits if_splits)


lemma word_ascii_name_re:
  "nm \<noteq> [] \<Longrightarrow> list_all (\<lambda>c. is_word rt c \<or> c = 45) nm \<Longrightarrow> is_ascii nm \<Longrightarrow> ascii_name_re nm"
  by (auto simp: ascii_name_re_def is_ascii_def list_all_iff is_word_def)

lemma letter_is_word: "ascii_letter c \<or> c = 95 \<Longrightarrow> is_word rt c \<and> c < 128"
  by (auto simp: ascii_letter_def is_word_def ascii_alnum_def)

lemma photo_name_chars:
  assumes "list_all date_char d"
  defines "nm \<equiv> lit ''photo_'' @ py_replace (lit '' '') (lit ''_'') (py_replace (lit '':'') [] d)"
  shows "nm \<noteq> []" and "list_all (\<lambda>c. is_word rt c \<or> c = 45) nm" and "is_ascii nm"
proof -
  let ?r1 = "py_replace [58] [] d"
  let ?r2 = "py_replace [32] [95] ?r1"
  have 1: "set ?r1 \<subseteq> set d" using py_replace_subset[of "[58]" "[]" d] by simp
  have 2: "58 \<notin> set ?r1" by (rule py_replace_avoid) simp
  have 3: "set ?r2 \<subseteq> set ?r1 \<union> {95}" using py_replace_subset[of "[32]" "[95]" ?r1] by simp
  have 4: "32 \<notin> set ?r2" by (rule py_replace_avoid) simp
  have digits: "\<forall>c\<in>set ?r2. (48 \<le> c \<and> c \<le> 57) \<or> c = 95"
  proof
    fix c assume c: "c \<in> set ?r2"
    with 3 have "c \<in> set ?r1 \<or> c = 95" by auto
    then show "(48 \<le> c \<and> c \<le> 57) \<or> c = 95"
    proof
      assume "c \<in> set ?r1"
      with 1 2 assms(1) have "date_char c" "c \<noteq> 58" by (auto simp: list_all_iff)
      moreover from c 4 have "c \<noteq> 32" by auto
      ultimately show ?thesis by (auto simp: date_char_def)
    qed simp
  qed
  have nm: "nm = lit ''photo_'' @ ?r2" by (simp add: nm_def lit_def)
  show "nm \<noteq> []" by (simp add: nm lit_def)
  from digits show "list_all (\<lambda>c. is_word rt c \<or> c = 45) nm"
    unfolding nm by (auto simp: list_all_iff lit_def is_word_def ascii_alnum_def)
  from digits show "is_ascii nm"
    unfolding nm by (auto simp: is_ascii_def list_all_iff lit_def)
qed

lemma words_name_chars:
  fixes rt
  assumes "ws \<noteq> []" and "\<forall>w\<in>set ws. 4 \<le> length w \<and> list_all ascii_letter w"
  defines "nm \<equiv> py_lower rt (py_join (lit ''_'') ws)"
  shows "nm \<noteq> []" and "list_all (\<lambda>c. is_word rt c \<or> c = 45) nm" and "is_ascii nm"
proof -
  let ?j = "py_join (lit ''_'') ws"
  from assms(2) have "\<forall>w\<in>set ws. list_all (\<lambda>c. ascii_letter c \<or> c = 95) w"
    by (auto simp: list_all_iff)
  then have j: "list_all (\<lambda>c. ascii_letter c \<or> c = 95) ?j"
    by (rule py_join_chars) (simp add: lit_def)
  from assms(1,2) have "hd ws \<noteq> []" by (cases ws) auto
  with assms(1) have jne: "?j \<noteq> []" by (rule py_join_nonempty)
  from ascii_letter_lower(1)[OF j, where rt = rt] ascii_letter_lower(2)[OF j] have nm: "nm = map ascii_lower ?j"
    and low: "list_all (\<lambda>c. ascii_letter c \<or> c = 95) (map ascii_lower ?j)"
    by (simp_all add: nm_def)
  from jne show "nm \<noteq> []" by (simp add: nm)
  from low letter_is_word[of _ rt] show "list_all (\<lambda>c. is_word rt c \<or> c = 45) nm"
    unfolding nm list_all_iff by blast
  from low letter_is_word[of _ rt] show "is_ascii nm"
    unfolding nm is_ascii_def list_all_iff by blast
qed

lemma fallback_name_chars:
  fixes rt fname content
  assumes date: "\<forall>d. photo_date md = Some d \<longrightarrow> list_all date_char d"
      and stem: "py_stem fname \<noteq> []"
  defines "nm \<equiv> fallback_name rt fname md content"
  shows "nm \<noteq> []" and "list_all (\<lambda>c. is_word rt c \<or> c = 45) nm"
    and "is_ascii (py_stem fname) \<Longrightarrow> is_ascii nm"
proof -
  consider
      (photo) d where "photo_date md = Some d"
        "nm = lit ''photo_'' @ py_replace (lit '' '') (lit ''_'') (py_replace (lit '':'') [] d)"
    | (words) ws where "ws \<noteq> []" "\<forall>w\<in>set ws. 4 \<le> length w \<and> list_all ascii_letter w"
        "nm = py_lower rt (py_join (lit ''_'') ws)"
    | (clean) "nm = re_sub_clean rt (py_stem fname)"
    using fallback_cases[where md = md and rt = rt and fname = fname and content = content] unfolding nm_def by blast
  then have "nm \<noteq> [] \<and> list_all (\<lambda>c. is_word rt c \<or> c = 45) nm \<and> (is_ascii (py_stem fname) \<longrightarrow> is_ascii nm)"
  proof cases
    case photo
    with date have "list_all date_char d" by simp
    from photo_name_chars[OF this] photo(2) show ?thesis by simp
  next
    case words
    from words_name_chars[OF words(1,2), where rt = rt] words(3) show ?thesis by simp
  next
    case clean
    with stem re_sub_clean_length[of rt "py_stem fname"] have "nm \<noteq> []" by auto
    with clean show ?thesis by (simp add: re_sub_clean_chars re_sub_clean_ascii)
  qed
  then show "nm \<noteq> []" and "list_all (\<lambda>c. is_word rt c \<or> c = 45) nm"
    and "is_ascii (py_stem fname) \<Longrightarrow> is_ascii nm" by simp_all
qed

text \<open>
  C3, as amended.  Whenever the stem is not empty and the photo date, if there is one, holds
  only digits, colons and spaces, the base name returned is not empty and each of its
  characters is a word character in Python's sense (\<open>\w\<close>, which holds letters and digits
  beyond ASCII), a hyphen or an underscore; when moreover the stem and the service's answer
  are ASCII, the name matches \<open>^[A-Za-z0-9_-]+$\<close>.
\<close>

theorem generate_smart_filename_chars:
  assumes date: "\<forall>d. photo_date md = Some d \<longrightarrow> list_all date_char d"
      and stem: "py_stem fname \<noteq> []"
  shows "fst (generate_smart_filename rt w fname md content) \<noteq> [] \<and>
         list_all (\<lambda>c. is_word rt c \<or> c = 45) (fst (generate_smart_filename rt w fname md content)) \<and>
         (is_ascii (py_stem fname) \<and>
          (\<forall>c. chat_create rt (length (ai_requests w)) (py_stem fname, py_suffix fname, take 500 content) = Content c
                \<longrightarrow> is_ascii c)
          \<longrightarrow> ascii_name_re (fst (generate_smart_filename rt w fname md content)))"
proof -
  let ?nm = "fst (generate_smart_filename rt w fname md content)"
  let ?reply = "chat_create rt (length (ai_requests w)) (py_stem fname, py_suffix fname, take 500 content)"
  have "?nm \<noteq> [] \<and> list_all (\<lambda>c. is_word rt c \<or> c = 45) ?nm \<and>
        (is_ascii (py_stem fname) \<and> (\<forall>c. ?reply = Content c \<longrightarrow> is_ascii c) \<longrightarrow> is_ascii ?nm)"
    using namer_cases[where rt = rt and w = w and fname = fname and content = content and md = md]
  proof (elim disjE exE conjE)
    fix c assume c: "?reply = Content c" and nm: "?nm = re_sub_clean rt (py_strip rt c)" and len: "3 < length ?nm"
    from len have "?nm \<noteq> []" by auto
    moreover have "is_ascii c \<Longrightarrow> is_ascii ?nm"
      unfolding nm by (rule re_sub_clean_ascii) (rule is_ascii_subset[OF py_strip_subset])
    ultimately show ?thesis using c by (simp add: nm re_sub_clean_chars)
  next
    assume "?nm = fallback_name rt fname md content"
    with fallback_name_chars[OF date stem, where rt = rt and content = content] show ?thesis by simp
  qed
  then show ?thesis using word_ascii_name_re[of ?nm rt] by blast
qed


theorem generate_smart_filename_chars_witness:
  "list_all date_char (lit ''2024:07:15 14:30:22'') \<and> py_stem (lit ''photo.jpg'') \<noteq> [] \<and>
   is_ascii (py_stem (lit ''photo.jpg'')) \<and>
   fst (generate_smart_filename sample_runtime offline (lit ''photo.jpg'')
          \<lparr>original_name = lit ''photo.jpg'', extension = lit ''.jpg'',
           photo_date = Some (lit ''2024:07:15 14:30:22'')\<rparr> []) = lit ''photo_20240715_143022'' \<and>
   ascii_name_re (fst (generate_smart_filename sample_runtime offline (lit ''photo.jpg'')
          \<lparr>original_name = lit ''photo.jpg'', extension = lit ''.jpg'',
           photo_date = Some (lit ''2024:07:15 14:30:22'')\<rparr> []))"
proof -
  let ?md = "\<lparr>original_name = lit ''photo.jpg'', extension = lit ''.jpg'',
           photo_date = Some (lit ''2024:07:15 14:30:22'')\<rparr>"
  have d: "list_all date_char (lit ''2024:07:15 14:30:22'')"
    by (simp add: date_char_def lit_def)
  then have h1: "\<forall>d. photo_date ?md = Some d \<longrightarrow> list_all date_char d" by simp
  have h2: "py_stem (lit ''photo.jpg'') \<noteq> []" and a: "is_ascii (py_stem (lit ''photo.jpg''))"
    by (simp_all add: str_defs)
  have r: "\<forall>c. chat_create sample_runtime (length (ai_requests offline))
             (py_stem (lit ''photo.jpg''), py_suffix (lit ''photo.jpg''), take 500 []) = Content c \<longrightarrow> is_ascii c"
    by (simp add: sample_runtime_def)
  have v: "fst (generate_smart_filename sample_runtime offline (lit ''photo.jpg'') ?md [])
      = lit ''photo_20240715_143022''"
    by (simp add: generate_smart_filename_def fallback_name_def offline_def str_defs)
  from generate_smart_filename_chars[OF h1 h2, of sample_runtime offline "[]"] a r
  have "ascii_name_re (fst (generate_smart_filename sample_runtime offline (lit ''photo.jpg'') ?md []))"
    by blast
  with d h2 a v show ?thesis by blast
qed

text \<open>
  C3 as stated fails: a photo date is copied into the name with only its colons and spaces
  replaced, and \<open>\w\<close> keeps letters beyond ASCII.
\<close>

theorem generate_smart_filename_counterexample:
  "(\<forall>rt. fst (generate_smart_filename rt offline (lit ''IMG_1.jpg'')
            \<lparr>original_name = lit ''IMG_1.jpg'', extension = lit ''.jpg'',
             photo_date = Some (lit ''2024/07/15 14:30:22'')\<rparr> []) = lit ''photo_2024/07/15_143022'') \<and>
   \<not> ascii_name_re (lit ''photo_2024/07/15_143022'') \<and>
   fst (generate_smart_filename sample_runtime offline (lit ''caf'' @ [233] @ lit ''.dat'')
            \<lparr>original_name = lit ''caf'' @ [233] @ lit ''.dat'', extension = lit ''.dat'',
             photo_date = None\<rparr> []) = lit ''caf'' @ [233] \<and>
   \<not> ascii_name_re (lit ''caf'' @ [233])"
  by (simp add: generate_smart_filename_def fallback_name_def offline_def str_defs sample_runtime_def
      re_findall_words_def ascii_name_re_def)


section \<open>Properties of conflict resolution\<close>

lemma organize_conflict_loop_free:
  "\<not> exists_in existing (organize_conflict_loop existing new_name suffix new_filename counter)"
proof (induction existing new_name suffix new_filename counter rule: organize_conflict_loop.induct)
  case (1 existing new_name suffix new_filename counter)
  then show ?case
    by (cases "exists_in existing new_filename")
       (simp_all add: organize_conflict_loop.simps[of existing new_name suffix new_filename counter])
qed

lemma reanalyze_conflict_loop_free:
  "\<not> exists_in existing (reanalyze_conflict_loop existing dest file_path new_name suffix new_filename counter) \<or>
   [dest, reanalyze_conflict_loop existing dest file_path new_name suffix new_filename counter] = file_path"
proof (induction existing dest file_path new_name suffix new_filename counter rule: reanalyze_conflict_loop.induct)
  case (1 existing dest file_path new_name suffix new_filename counter)
  then show ?case
    by (cases "exists_in existing new_filename \<and> [dest, new_filename] \<noteq> file_path")
       (auto simp: reanalyze_conflict_loop.simps[of existing dest file_path new_name suffix new_filename counter])
qed

text \<open>
  C6.  For every folder, base name and extension, the name the loop of OrganizePass returns
  does not exist in the destination folder; the name the loop of ReconcilePass returns does
  not exist there either, unless it is the path of the file that is being reconciled.  Both
  loops are total functions: they end on every input.
\<close>

theorem conflict_loops_free:
  "\<not> exists_in (existing_names w dest_folder)
       (organize_conflict_loop (existing_names w dest_folder) new_name suffix (new_name @ suffix) 1) \<and>
   (\<not> exists_in (existing_names w dest_folder)
        (reanalyze_conflict_loop (existing_names w dest_folder) dest_folder file_path new_name suffix
           (new_name @ suffix) 1) \<or>
    [dest_folder, reanalyze_conflict_loop (existing_names w dest_folder) dest_folder file_path new_name
                    suffix (new_name @ suffix) 1] = file_path)"
  using organize_conflict_loop_free reanalyze_conflict_loop_free by blast

theorem conflict_loops_free_witness:
  "existing_names reports (lit ''Organized_Documents'') = [lit ''report.pdf'', lit ''report_1.pdf''] \<and>
   organize_conflict_loop (existing_names reports (lit ''Organized_Documents''))
     (lit ''report'') (lit ''.pdf'') (lit ''report'' @ lit ''.pdf'') 1 = lit ''report_2.pdf'' \<and>
   \<not> exists_in (existing_names reports (lit ''Organized_Documents'')) (lit ''report_2.pdf'') \<and>
   reanalyze_conflict_loop (existing_names reports (lit ''Organized_Documents'')) (lit ''Organized_Documents'')
     [lit ''Organized_Documents'', lit ''report_1.pdf'']
     (lit ''report'') (lit ''.pdf'') (lit ''report'' @ lit ''.pdf'') 1 = lit ''report_1.pdf'' \<and>
   exists_in (existing_names reports (lit ''Organized_Documents'')) (lit ''report_1.pdf'')"
proof -
  let ?ex = "existing_names reports (lit ''Organized_Documents'')"
  have ex: "?ex = [lit ''report.pdf'', lit ''report_1.pdf'']"
    by code_simp
  have o: "organize_conflict_loop ?ex (lit ''report'') (lit ''.pdf'') (lit ''report'' @ lit ''.pdf'') 1
      = lit ''report_2.pdf''"
    by code_simp
  have r: "reanalyze_conflict_loop ?ex (lit ''Organized_Documents'')
     [lit ''Organized_Documents'', lit ''report_1.pdf'']
     (lit ''report'') (lit ''.pdf'') (lit ''report'' @ lit ''.pdf'') 1 = lit ''report_1.pdf''"
    by code_simp
  from conflict_loops_free[of reports "lit ''Organized_Documents''" "lit ''report''" "lit ''.pdf''"
      "[lit ''Organized_Documents'', lit ''report_1.pdf'']"]
  have "\<not> exists_in ?ex (lit ''report_2.pdf'')" unfolding o by blast
  moreover have "exists_in ?ex (lit ''report_1.pdf'')" by code_simp
  ultimately show ?thesis using ex o r by blast
qed

section \<open>What each step leaves alone\<close>

lemma log_line_fields [simp]:
  "ai_client (log_line lv m w) = ai_client w"
  "ai_requests (log_line lv m w) = ai_requests w"
  "root (log_line lv m w) = root w"
  "root_exists (log_line lv m w) = root_exists w"
  "actions_log (log_line lv m w) = actions_log w"
  "logger (log_line lv m w) = logger w @ [(lv, m)]"
  by (simp_all add: log_line_def)

lemma save_action_log_fields [simp]:
  "ai_client (save_action_log a w) = ai_client w"
  "ai_requests (save_action_log a w) = ai_requests w"
  "root (save_action_log a w) = root w"
  "root_exists (save_action_log a w) = root_exists w"
  "actions_log (save_action_log a w) = actions_log w @ [a]"
  "logger (save_action_log a w) = logger w"
  by (simp_all add: save_action_log_def)

lemma mkdir_fields [simp]:
  "ai_client (fst (mkdir_exist_ok w d)) = ai_client w"
  "ai_requests (fst (mkdir_exist_ok w d)) = ai_requests w"
  "root_exists (fst (mkdir_exist_ok w d)) = root_exists w"
  "actions_log (fst (mkdir_exist_ok w d)) = actions_log w"
  "logger (fst (mkdir_exist_ok w d)) = logger w"
  by (simp_all add: mkdir_exist_ok_def split: option.splits node.splits)

lemma shutil_move_fields:
  assumes "shutil_move w src f d nm = Inr w'"
  shows "ai_client w' = ai_client w" "ai_requests w' = ai_requests w" "root_exists w' = root_exists w"
    "actions_log w' = actions_log w" "logger w' = logger w"
  using assms by (auto simp: shutil_move_def split: if_splits)

lemma generate_ai_off:
  "\<not> ai_client w \<Longrightarrow> generate_smart_filename rt w fname md content = (fallback_name rt fname md content, w)"
  by (simp add: generate_smart_filename_def)

lemma analyze_fields [simp]:
  "root (snd (analyze_content_with_ai rt w fname content)) = root w"
  "root_exists (snd (analyze_content_with_ai rt w fname content)) = root_exists w"
  "actions_log (snd (analyze_content_with_ai rt w fname content)) = actions_log w"
  by (simp_all add: analyze_content_with_ai_def Let_def split: ai_outcome.splits)

lemma generate_fields [simp]:
  "root (snd (generate_smart_filename rt w fname md content)) = root w"
  "root_exists (snd (generate_smart_filename rt w fname md content)) = root_exists w"
  "actions_log (snd (generate_smart_filename rt w fname md content)) = actions_log w"
  by (simp_all add: generate_smart_filename_def split: prod.splits)
     (metis analyze_fields snd_conv)+

lemma ai_state_simps [simp]:
  "ai_state (log_line lv m w) = ai_state w"
  "ai_state (save_action_log a w) = ai_state w"
  "ai_state (fst (mkdir_exist_ok w d)) = ai_state w"
  by (simp_all add: ai_state_def)

lemma ai_state_move: "shutil_move w src f d nm = Inr w' \<Longrightarrow> ai_state w' = ai_state w"
  by (simp add: ai_state_def shutil_move_fields)

lemma organize_file_ai_off:
  assumes "\<not> ai_client w"
  shows "ai_state (fst (organize_file rt w f)) = ai_state w"
proof -
  have off: "\<not> ai_client (log_line lv m w)" for lv m using assms by simp
  show ?thesis
    unfolding organize_file_def
    by (auto simp: Let_def generate_ai_off[OF off] ai_state_move
        split: prod.splits sum.splits)
qed

lemma organize_loop_ai_off:
  "\<not> ai_client w \<Longrightarrow> ai_state (organize_loop rt w files) = ai_state w"
proof (induction files arbitrary: w)
  case Nil
  then show ?case by simp
next
  case (Cons f files)
  let ?r = "organize_file rt w f"
  from organize_file_ai_off[OF Cons.prems, of rt f] have s: "ai_state (fst ?r) = ai_state w" .
  then have off: "\<not> ai_client (fst ?r)" using Cons.prems by (simp add: ai_state_def)
  show ?case
  proof (cases "snd ?r")
    case None
    then have "organize_loop rt w (f # files) = organize_loop rt (fst ?r) files"
      by (cases ?r) simp
    with Cons.IH[OF off] s show ?thesis by simp
  next
    case (Some e)
    then have "organize_loop rt w (f # files) =
        organize_loop rt (log_line ERROR (Error_processing (ename f) e) (fst ?r)) files"
      by (cases ?r) simp
    moreover from off have "\<not> ai_client (log_line ERROR (Error_processing (ename f) e) (fst ?r))" by simp
    ultimately show ?thesis using Cons.IH s by simp
  qed
qed


lemma create_category_folders_ai [simp]:
  "ai_state (fst (create_category_folders w cats)) = ai_state w"
proof (induction cats arbitrary: w)
  case Nil
  then show ?case by simp
next
  case (Cons c cats)
  show ?case
  proof (cases "mkdir_exist_ok w (lit ''Organized_'' @ c)")
    case (Pair w1 r)
    then have "ai_state w1 = ai_state w" using ai_state_simps(3)[of w "lit ''Organized_'' @ c"] by simp
    with Pair Cons.IH show ?thesis by (cases r) simp_all
  qed
qed

lemma create_organized_folders_ai [simp]:
  "ai_state (fst (create_organized_folders w)) = ai_state w"
proof (cases "create_category_folders w (map fst file_categories)")
  case (Pair w1 r)
  then have "ai_state w1 = ai_state w"
    using create_category_folders_ai[of w "map fst file_categories"] by simp
  with Pair show ?thesis by (cases r) (simp_all add: create_organized_folders_def)
qed

lemma organize_files_in_folder_ai_off:
  assumes "\<not> ai_client w"
  shows "ai_state (fst (organize_files_in_folder rt w)) = ai_state w"
proof (cases "root_exists w")
  case False
  then show ?thesis by (simp add: organize_files_in_folder_def)
next
  case True
  show ?thesis
  proof (cases "create_organized_folders (log_line INFO Processing_folder w)")
    case (Pair w1 r)
    then have s: "ai_state w1 = ai_state w"
      using create_organized_folders_ai[of "log_line INFO Processing_folder w"] by simp
    show ?thesis
    proof (cases r)
      case None
      from s assms have "\<not> ai_client (log_line INFO (Found_files (length (root_files w1))) w1)"
        by (simp add: ai_state_def)
      from organize_loop_ai_off[OF this] s Pair None True show ?thesis
        by (simp add: organize_files_in_folder_def Let_def)
    next
      case (Some e)
      with Pair s True show ?thesis by (simp add: organize_files_in_folder_def)
    qed
  qed
qed

lemma ensure_dest_folder_ai [simp]:
  "ai_state (fst (ensure_dest_folder b w d)) = ai_state w"
  by (simp add: ensure_dest_folder_def)

lemma apply_change_cases:
  fixes dry org cur f md mt nc nn w st
  defines "sfx \<equiv> py_suffix (ename f)"
  defines "nd \<equiv> (if nc \<noteq> cur then lit ''Organized_'' @ nc else org)"
  defines "mk \<equiv> ensure_dest_folder (nc \<noteq> cur) w nd"
  defines "nf \<equiv> reanalyze_conflict_loop (existing_names (fst mk) nd) nd [org, ename f] nn sfx (nn @ sfx) 1"
  defines "ct \<equiv> planned_change (nc \<noteq> cur) (nn @ sfx \<noteq> ename f) cur nc (ename f) nf"
  defines "st1 \<equiv> count_change (nc \<noteq> cur) (nn @ sfx \<noteq> ename f) st"
  defines "st2 \<equiv> count_improvement (nn @ sfx \<noteq> ename f) nn (py_stem (ename f)) st1"
  defines "res \<equiv> apply_change dry org cur f md mt nc nn (w, st)"
  obtains
    (mkdir_error) e where "snd mk = Some e" "res = ((fst mk, st), Some e)"
  | (dry_run) "snd mk = None" "dry"
      "res = ((log_line INFO (Dry_run_would_change (ename f) ct) (fst mk), st2), None)"
  | (self) "snd mk = None" "\<not> dry" "nd = org" "nf = ename f" "res = ((fst mk, st2), None)"
  | (move_error) e where "snd mk = None" "\<not> dry" "[nd, nf] \<noteq> [org, ename f]"
      "shutil_move (fst mk) [org] f nd nf = Inl e" "res = ((fst mk, st1), Some e)"
  | (moved) w2 where "snd mk = None" "\<not> dry" "[nd, nf] \<noteq> [org, ename f]"
      "shutil_move (fst mk) [org] f nd nf = Inr w2"
      "res = ((save_action_log (Reanalysis [org, ename f] [nd, nf] (ename f) nf cur nc ct mt md)
                 (log_line INFO (Updated ct) w2), st2), None)"
proof -
  obtain w1 r where mkeq: "mk = (w1, r)" by (cases mk)
  have unf: "res = (case mk of
           (w1, Some e) \<Rightarrow> ((w1, st), Some e)
         | (w1, None) \<Rightarrow>
             if dry then ((log_line INFO (Dry_run_would_change (ename f) ct) w1, st2), None)
             else if [nd, nf] \<noteq> [org, ename f]
             then (case shutil_move w1 [org] f nd nf of
                     Inl e \<Rightarrow> ((w1, st1), Some e)
                   | Inr w2 \<Rightarrow>
                       ((save_action_log (Reanalysis [org, ename f] [nd, nf] (ename f) nf cur nc ct mt md)
                           (log_line INFO (Updated ct) w2), st2), None))
             else ((w1, st2), None))"
    unfolding res_def apply_change_def Let_def prod.case
    unfolding mk_def[symmetric] nd_def[symmetric] sfx_def[symmetric]
    unfolding mkeq prod.case fst_conv
    unfolding nf_def[unfolded mkeq fst_conv, symmetric] ct_def[symmetric] st1_def[symmetric]
      st2_def[symmetric]
    by (simp split: option.splits)
  show ?thesis
  proof (cases r)
    case (Some e)
    with unf mkeq mkdir_error show ?thesis by simp
  next
    case None
    show ?thesis
    proof (cases dry)
      case True
      with unf mkeq None dry_run show ?thesis by simp
    next
      case False
      show ?thesis
      proof (cases "[nd, nf] \<noteq> [org, ename f]")
        case ne: True
        show ?thesis
        proof (cases "shutil_move w1 [org] f nd nf")
          case (Inl e)
          with unf mkeq None False ne move_error[of e] show ?thesis by simp
        next
          case (Inr w2)
          with unf mkeq None False ne moved[of w2] show ?thesis by simp
        qed
      next
        case eq: False
        with unf mkeq None False self show ?thesis by simp
      qed
    qed
  qed
qed

lemma apply_change_ai [simp]:
  "ai_state (fst (fst (apply_change dry org cur f md mt nc nn (w, st)))) = ai_state w"
  by (cases rule: apply_change_cases[where nc = nc and cur = cur and w = w and org = org and f = f and nn = nn and dry = dry and md = md and mt = mt and st = st])
     (simp_all add: ai_state_move)

lemma reanalyze_file_cases:
  fixes rt dry org cur w st f
  defines "st1 \<equiv> st\<lparr>files_processed := files_processed st + 1\<rparr>"
  defines "w1 \<equiv> log_line INFO (Reanalyzing (ename f)) w"
  defines "res \<equiv> reanalyze_file rt dry org cur (w, st) f"
  obtains
    (skipped) "is_system_file f" "res = ((w, st1), None)"
  | (stat_error) e where "\<not> is_system_file f" "extract_metadata rt f = Inl e" "res = ((w1, st1), Some e)"
  | (unchanged) md nn w2 where "\<not> is_system_file f" "extract_metadata rt f = Inr md"
      "generate_smart_filename rt w1 (ename f) md (read_file_content rt f) = (nn, w2)"
      "snd (get_file_type rt f) = cur" "nn @ py_suffix (ename f) = ename f"
      "res = ((w2, st1), None)"
  | (changed) md nn w2 where "\<not> is_system_file f" "extract_metadata rt f = Inr md"
      "generate_smart_filename rt w1 (ename f) md (read_file_content rt f) = (nn, w2)"
      "snd (get_file_type rt f) \<noteq> cur \<or> nn @ py_suffix (ename f) \<noteq> ename f"
      "res = apply_change dry org cur f md (fst (get_file_type rt f)) (snd (get_file_type rt f)) nn (w2, st1)"
proof (cases "is_system_file f")
  case True
  with skipped show ?thesis by (simp add: res_def reanalyze_file_def st1_def)
next
  case nonsys: False
  show ?thesis
  proof (cases "extract_metadata rt f")
    case (Inl e)
    with nonsys stat_error[of e] show ?thesis
      by (simp add: res_def reanalyze_file_def st1_def w1_def Let_def case_prod_beta)
  next
    case (Inr md)
    obtain nn w2 where g: "generate_smart_filename rt w1 (ename f) md (read_file_content rt f) = (nn, w2)"
      by (cases "generate_smart_filename rt w1 (ename f) md (read_file_content rt f)")
    show ?thesis
    proof (cases "snd (get_file_type rt f) \<noteq> cur \<or> nn @ py_suffix (ename f) \<noteq> ename f")
      case True
      with nonsys Inr g changed[of md nn w2] show ?thesis
        by (simp add: res_def reanalyze_file_def st1_def w1_def Let_def case_prod_beta)
    next
      case False
      with nonsys Inr g unchanged[of md nn w2] show ?thesis
        by (simp add: res_def reanalyze_file_def st1_def w1_def Let_def case_prod_beta)
    qed
  qed
qed

lemma reanalyze_file_ai_off:
  assumes "\<not> ai_client w"
  shows "ai_state (fst (fst (reanalyze_file rt dry org cur (w, st) f))) = ai_state w"
proof -
  have off: "\<not> ai_client (log_line lv m w)" for lv m using assms by simp
  show ?thesis
    by (cases rule: reanalyze_file_cases[where f = f and rt = rt and dry = dry and org = org and cur = cur and w = w and st = st])
       (simp_all add: generate_ai_off[OF off])
qed

lemma reanalyze_files_ai_off:
  "\<not> ai_client (fst ws) \<Longrightarrow> ai_state (fst (reanalyze_files rt dry org cur ws files)) = ai_state (fst ws)"
proof (induction files arbitrary: ws)
  case Nil
  then show ?case by simp
next
  case (Cons f files)
  obtain w st where ws: "ws = (w, st)" by (cases ws)
  obtain w1 st1 r where res: "reanalyze_file rt dry org cur (w, st) f = ((w1, st1), r)"
    by (cases "reanalyze_file rt dry org cur (w, st) f") auto
  from Cons.prems ws have off: "\<not> ai_client w" by simp
  from reanalyze_file_ai_off[OF off, of rt dry org cur st f] res have s: "ai_state w1 = ai_state w" by simp
  with off have off1: "\<not> ai_client w1" by (simp add: ai_state_def)
  show ?case
  proof (cases r)
    case None
    with res ws Cons.IH[of "(w1, st1)"] off1 s show ?thesis by simp
  next
    case (Some e)
    with res ws Cons.IH[of "(log_line ERROR (Error_reanalyzing (ename f) e) w1, st1)"] off1 s
    show ?thesis by simp
  qed
qed

lemma reanalyze_folders_ai_off:
  "\<not> ai_client (fst ws) \<Longrightarrow> ai_state (fst (reanalyze_folders rt dry ws orgs)) = ai_state (fst ws)"
proof (induction orgs arbitrary: ws)
  case Nil
  then show ?case by simp
next
  case (Cons org orgs)
  let ?cur = "py_replace (lit ''Organized_'') [] org"
  let ?w1 = "log_line INFO (Reanalyzing_category ?cur) (fst ws)"
  let ?ws1 = "reanalyze_files rt dry org ?cur (?w1, snd ws) (filter is_file (folder_listing ?w1 org))"
  from Cons.prems have off: "\<not> ai_client (fst (?w1, snd ws))" by simp
  from reanalyze_files_ai_off[OF off] have s: "ai_state (fst ?ws1) = ai_state (fst ws)" by simp
  with Cons.prems have "\<not> ai_client (fst ?ws1)" by (simp add: ai_state_def)
  from Cons.IH[OF this] s show ?case by (simp add: Let_def)
qed

lemma reanalyze_organized_files_ai_off:
  assumes "\<not> ai_client w"
  shows "ai_state (fst (reanalyze_organized_files rt w dry)) = ai_state w"
proof -
  let ?w1 = "log_line INFO Reanalyzing_in w"
  from assms have "\<not> ai_client (fst (?w1, zero_stats))" by simp
  from reanalyze_folders_ai_off[OF this, of rt dry "organized_folders ?w1"]
  show ?thesis
    by (auto simp: reanalyze_organized_files_def Let_def split: prod.splits)
qed

section \<open>The credential circuit breaker\<close>

text \<open>
  C7.  A call that the collaborator answers with an exception returns the empty suggestion;
  it leaves the client set unless the message, in lower case, holds \<open>invalid_api_key\<close> or
  \<open>401\<close> (the credential signal), in which case the client is unset.  Once the client is
  unset nothing sets it again: a call returns the empty suggestion and sends no request, a
  naming call falls back to the name without AI and leaves the world as it is, and a whole
  OrganizePass or ReconcilePass sends no request and leaves the client unset.
\<close>

theorem credential_circuit_breaker:
  "(ai_client w \<and>
    chat_create rt (length (ai_requests w)) (py_stem fname, py_suffix fname, take 500 content) = Raises e \<longrightarrow>
      fst (analyze_content_with_ai rt w fname content) = [] \<and>
      ai_client (snd (analyze_content_with_ai rt w fname content)) =
        (\<not> (contains (py_lower rt e) (lit ''invalid_api_key'') \<or> contains (py_lower rt e) (lit ''401'')))) \<and>
   (\<not> ai_client w \<longrightarrow>
      analyze_content_with_ai rt w fname content = ([], w) \<and>
      generate_smart_filename rt w fname md content = (fallback_name rt fname md content, w) \<and>
      ai_state (fst (organize_files_in_folder rt w)) = ai_state w \<and>
      ai_state (fst (reanalyze_organized_files rt w dry_run)) = ai_state w)"
  using organize_files_in_folder_ai_off[of w rt] reanalyze_organized_files_ai_off[of w rt dry_run]
    generate_ai_off[of w rt fname md content]
  by (auto simp: analyze_content_with_ai_def Let_def)

theorem credential_circuit_breaker_witness:
  "ai_client online \<and>
   chat_create revoked_runtime (length (ai_requests online))
     (py_stem (lit ''a.txt''), py_suffix (lit ''a.txt''), take 500 (lit ''notes'')) = Raises (lit ''Error code: 401 - invalid_api_key'') \<and>
   fst (analyze_content_with_ai revoked_runtime online (lit ''a.txt'') (lit ''notes'')) = [] \<and>
   \<not> ai_client (snd (analyze_content_with_ai revoked_runtime online (lit ''a.txt'') (lit ''notes''))) \<and>
   length (ai_requests (snd (analyze_content_with_ai revoked_runtime online (lit ''a.txt'') (lit ''notes'')))) = 1 \<and>
   \<not> ai_client offline \<and>
   analyze_content_with_ai revoked_runtime offline (lit ''a.txt'') (lit ''notes'') = ([], offline) \<and>
   ai_state (fst (organize_files_in_folder revoked_runtime offline)) = ai_state offline \<and>
   ai_client (snd (analyze_content_with_ai sample_runtime online (lit ''a.txt'') (lit ''notes'')))"
proof -
  have on: "ai_client online" and off: "\<not> ai_client offline"
    by (simp_all add: online_def offline_def)
  have r1: "chat_create revoked_runtime (length (ai_requests online))
     (py_stem (lit ''a.txt''), py_suffix (lit ''a.txt''), take 500 (lit ''notes'')) = Raises (lit ''Error code: 401 - invalid_api_key'')"
    by (simp add: revoked_runtime_def)
  have r2: "chat_create sample_runtime (length (ai_requests online))
     (py_stem (lit ''a.txt''), py_suffix (lit ''a.txt''), take 500 (lit ''notes'')) = Raises (lit ''Connection error.'')"
    by (simp add: sample_runtime_def)
  have c1: "contains (py_lower revoked_runtime (lit ''Error code: 401 - invalid_api_key'')) (lit ''401'')"
    by code_simp
  have c2: "\<not> (contains (py_lower sample_runtime (lit ''Connection error.'')) (lit ''invalid_api_key'') \<or>
                contains (py_lower sample_runtime (lit ''Connection error.'')) (lit ''401''))"
    by code_simp
  have n: "length (ai_requests (snd (analyze_content_with_ai revoked_runtime online (lit ''a.txt'') (lit ''notes'')))) = 1"
    by code_simp
  note a = credential_circuit_breaker[of online revoked_runtime "lit ''a.txt''" "lit ''notes''"
      "lit ''Error code: 401 - invalid_api_key''"]
  note b = credential_circuit_breaker[of offline revoked_runtime "lit ''a.txt''" "lit ''notes''"]
  note c = credential_circuit_breaker[of online sample_runtime "lit ''a.txt''" "lit ''notes''"
      "lit ''Connection error.''"]
  from a on r1 c1 have "fst (analyze_content_with_ai revoked_runtime online (lit ''a.txt'') (lit ''notes'')) = []"
    and "\<not> ai_client (snd (analyze_content_with_ai revoked_runtime online (lit ''a.txt'') (lit ''notes'')))"
    by blast+
  moreover from b off have "analyze_content_with_ai revoked_runtime offline (lit ''a.txt'') (lit ''notes'') = ([], offline)"
    and "ai_state (fst (organize_files_in_folder revoked_runtime offline)) = ai_state offline"
    by blast+
  moreover from c on r2 c2 have "ai_client (snd (analyze_content_with_ai sample_runtime online (lit ''a.txt'') (lit ''notes'')))"
    by blast
  ultimately show ?thesis using on off r1 n by blast
qed

section \<open>Error isolation in the file loops\<close>

lemma taken_up_log_line [simp]: "taken_up (log_line lv m w) = taken_up w @ taken_msg m"
  by (simp add: taken_up_def)

lemma taken_up_logger: "logger w' = logger w \<Longrightarrow> taken_up w' = taken_up w"
  by (simp add: taken_up_def)

lemma taken_up_analyze [simp]:
  "taken_up (snd (analyze_content_with_ai rt w fname content)) = taken_up w"
  by (simp add: analyze_content_with_ai_def Let_def taken_up_def log_line_def split: ai_outcome.splits)

lemma taken_up_generate [simp]:
  "taken_up (snd (generate_smart_filename rt w fname md content)) = taken_up w"
proof (cases "content \<noteq> [] \<and> ai_client w")
  case True
  obtain s w1 where a: "analyze_content_with_ai rt w fname content = (s, w1)"
    by (cases "analyze_content_with_ai rt w fname content")
  then have "taken_up w1 = taken_up w" using taken_up_analyze[of rt w fname content] by simp
  with True a show ?thesis by (simp add: generate_smart_filename_def)
next
  case False
  then show ?thesis by (auto simp: generate_smart_filename_def)
qed

lemma organize_file_cases:
  fixes rt w f
  defines "mt \<equiv> fst (get_file_type rt f)"
  defines "cat \<equiv> snd (get_file_type rt f)"
  defines "w1 \<equiv> log_line INFO (Processing (ename f) mt cat) w"
  defines "dest \<equiv> lit ''Organized_'' @ cat"
  defines "res \<equiv> organize_file rt w f"
  obtains
    (skipped) "is_system_file f" "res = (w, None)"
  | (stat_error) e where "\<not> is_system_file f" "extract_metadata rt f = Inl e" "res = (w1, Some e)"
  | (move_error) md nn w2 nf e where "\<not> is_system_file f" "extract_metadata rt f = Inr md"
      "generate_smart_filename rt w1 (ename f) md (read_file_content rt f) = (nn, w2)"
      "nf = organize_conflict_loop (existing_names w2 dest) nn (py_suffix (ename f)) (nn @ py_suffix (ename f)) 1"
      "shutil_move w2 [] f dest nf = Inl e" "res = (w2, Some e)"
  | (moved) md nn w2 nf w3 where "\<not> is_system_file f" "extract_metadata rt f = Inr md"
      "generate_smart_filename rt w1 (ename f) md (read_file_content rt f) = (nn, w2)"
      "nf = organize_conflict_loop (existing_names w2 dest) nn (py_suffix (ename f)) (nn @ py_suffix (ename f)) 1"
      "shutil_move w2 [] f dest nf = Inr w3"
      "res = (save_action_log (Organized [ename f] [dest, nf] (ename f) nf cat mt md)
                (log_line INFO (Moved (ename f) [dest, nf]) w3), None)"
proof (cases "is_system_file f")
  case True
  with skipped show ?thesis by (simp add: res_def organize_file_def)
next
  case nonsys: False
  show ?thesis
  proof (cases "extract_metadata rt f")
    case (Inl e)
    with nonsys stat_error[of e] show ?thesis
      by (simp add: res_def organize_file_def w1_def mt_def cat_def Let_def case_prod_beta)
  next
    case (Inr md)
    obtain nn w2 where g: "generate_smart_filename rt w1 (ename f) md (read_file_content rt f) = (nn, w2)"
      by (cases "generate_smart_filename rt w1 (ename f) md (read_file_content rt f)")
    define nf where "nf = organize_conflict_loop (existing_names w2 dest) nn (py_suffix (ename f)) (nn @ py_suffix (ename f)) 1"
    show ?thesis
    proof (cases "shutil_move w2 [] f dest nf")
      case (Inl e)
      with nonsys Inr g nf_def move_error[of md nn w2 nf e] show ?thesis
        by (simp add: res_def organize_file_def w1_def mt_def cat_def dest_def Let_def case_prod_beta)
    next
      case (Inr w3)
      with nonsys \<open>extract_metadata rt f = Inr md\<close> g nf_def moved[of md nn w2 nf w3] show ?thesis
        by (simp add: res_def organize_file_def w1_def mt_def cat_def dest_def Let_def case_prod_beta)
    qed
  qed
qed

lemma taken_up_organize_file:
  "taken_up (fst (organize_file rt w f)) = taken_up w @ (if is_system_file f then [] else [ename f])"
proof (cases rule: organize_file_cases[where rt = rt and w = w and f = f])
  case skipped
  then show ?thesis by simp
next
  case (stat_error e)
  then show ?thesis by simp
next
  case (move_error md nn w2 nf e)
  from taken_up_generate[of rt _ "ename f" md "read_file_content rt f"] move_error(3)
  have "taken_up w2 = taken_up w @ [ename f]" by (metis snd_conv taken_msg.simps(1) taken_up_log_line)
  with move_error show ?thesis by simp
next
  case (moved md nn w2 nf w3)
  from taken_up_generate[of rt _ "ename f" md "read_file_content rt f"] moved(3)
  have "taken_up w2 = taken_up w @ [ename f]" by (metis snd_conv taken_msg.simps(1) taken_up_log_line)
  moreover from shutil_move_fields(5)[OF moved(5)] have "taken_up w3 = taken_up w2"
    by (rule taken_up_logger)
  ultimately show ?thesis using moved by (simp add: taken_up_def)
qed

lemma taken_up_organize_loop:
  "taken_up (organize_loop rt w files) = taken_up w @ map ename (filter (\<lambda>f. \<not> is_system_file f) files)"
proof (induction files arbitrary: w)
  case Nil
  then show ?case by simp
next
  case (Cons f files)
  obtain w1 r where res: "organize_file rt w f = (w1, r)" by (cases "organize_file rt w f")
  with taken_up_organize_file[of rt w f]
  have t: "taken_up w1 = taken_up w @ (if is_system_file f then [] else [ename f])" by simp
  show ?case
  proof (cases r)
    case None
    with res Cons.IH[of w1] t show ?thesis by simp
  next
    case (Some e)
    with res Cons.IH[of "log_line ERROR (Error_processing (ename f) e) w1"] t show ?thesis by simp
  qed
qed


lemma ensure_dest_folder_fields [simp]:
  "ai_client (fst (ensure_dest_folder b w d)) = ai_client w"
  "ai_requests (fst (ensure_dest_folder b w d)) = ai_requests w"
  "root_exists (fst (ensure_dest_folder b w d)) = root_exists w"
  "actions_log (fst (ensure_dest_folder b w d)) = actions_log w"
  "logger (fst (ensure_dest_folder b w d)) = logger w"
  by (simp_all add: ensure_dest_folder_def)

lemma taken_up_apply_change:
  "taken_up (fst (fst (apply_change dry org cur f md mt nc nn (w, st)))) = taken_up w"
proof (cases rule: apply_change_cases[where nc = nc and cur = cur and w = w and org = org and f = f
      and nn = nn and dry = dry and md = md and mt = mt and st = st])
  case (moved w2)
  from shutil_move_fields(5)[OF moved(4)] have "taken_up w2 = taken_up w"
    by (simp add: taken_up_def)
  with moved(5) show ?thesis by (simp add: taken_up_def)
qed (simp_all add: taken_up_def)

lemma taken_up_reanalyze_file:
  "taken_up (fst (fst (reanalyze_file rt dry org cur (w, st) f))) =
   taken_up w @ (if is_system_file f then [] else [ename f])"
proof (cases rule: reanalyze_file_cases[where f = f and rt = rt and dry = dry and org = org
      and cur = cur and w = w and st = st])
  case skipped
  then show ?thesis by simp
next
  case (stat_error e)
  then show ?thesis by simp
next
  case (unchanged md nn w2)
  from taken_up_generate[of rt _ "ename f" md "read_file_content rt f"] unchanged(3)
  have "taken_up w2 = taken_up w @ [ename f]" by (metis snd_conv taken_msg.simps(2) taken_up_log_line)
  with unchanged show ?thesis by simp
next
  case (changed md nn w2)
  from taken_up_generate[of rt _ "ename f" md "read_file_content rt f"] changed(3)
  have "taken_up w2 = taken_up w @ [ename f]" by (metis snd_conv taken_msg.simps(2) taken_up_log_line)
  with changed show ?thesis by (simp add: taken_up_apply_change)
qed

lemma taken_up_reanalyze_files:
  "taken_up (fst (reanalyze_files rt dry org cur (w, st) files)) =
   taken_up w @ map ename (filter (\<lambda>f. \<not> is_system_file f) files)"
proof (induction files arbitrary: w st)
  case Nil
  then show ?case by simp
next
  case (Cons f files)
  obtain w1 st1 r where res: "reanalyze_file rt dry org cur (w, st) f = ((w1, st1), r)"
    by (cases "reanalyze_file rt dry org cur (w, st) f") auto
  with taken_up_reanalyze_file[of rt dry org cur w st f]
  have t: "taken_up w1 = taken_up w @ (if is_system_file f then [] else [ename f])" by simp
  show ?case
  proof (cases r)
    case None
    with res Cons.IH[of w1 st1] t show ?thesis by simp
  next
    case (Some e)
    with res Cons.IH[of "log_line ERROR (Error_reanalyzing (ename f) e) w1" st1] t show ?thesis by simp
  qed
qed

text \<open>
  C8.  The file loops of both passes are total functions from a world and a listing to a
  world: an exception of one file's body is logged and the loop goes on.  Whatever the
  files do (a failing \<open>stat\<close>, a failing move, a failing analysis), every file of the
  listing that is not skipped as a system file is taken up, in the order of the listing.
\<close>

theorem file_loops_continue:
  "taken_up (organize_loop rt w files) =
     taken_up w @ map ename (filter (\<lambda>f. \<not> is_system_file f) files) \<and>
   taken_up (fst (reanalyze_files rt dry_run org_folder current_category (w, st) files)) =
     taken_up w @ map ename (filter (\<lambda>f. \<not> is_system_file f) files)"
  by (simp add: taken_up_organize_loop taken_up_reanalyze_files)

theorem file_loops_continue_witness:
  "map ename (root_files desk) = [lit ''b.pdf'', lit ''c.py''] \<and>
   taken_up (organize_loop sample_runtime desk (root_files desk)) = [lit ''b.pdf'', lit ''c.py''] \<and>
   map snd (filter (\<lambda>line. fst line = ERROR) (logger (organize_loop sample_runtime desk (root_files desk)))) =
     [Error_processing (lit ''b.pdf'') (MoveError [lit ''b.pdf''] [lit ''Organized_Documents'', lit ''b.pdf''])] \<and>
   map ename (folder_listing (organize_loop sample_runtime desk (root_files desk)) (lit ''Organized_Code''))
     = [lit ''c.py'']"
proof -
  have 1: "(map ename (root_files desk), map ename (filter (\<lambda>f. \<not> is_system_file f) (root_files desk)),
            taken_up desk) = ([lit ''b.pdf'', lit ''c.py''], [lit ''b.pdf'', lit ''c.py''], [])"
    by code_simp
  have 2: "(let R = organize_loop sample_runtime desk (root_files desk) in
              (map snd (filter (\<lambda>line. fst line = ERROR) (logger R)),
               map ename (folder_listing R (lit ''Organized_Code'')))) =
           ([Error_processing (lit ''b.pdf'') (MoveError [lit ''b.pdf''] [lit ''Organized_Documents'', lit ''b.pdf''])],
            [lit ''c.py''])"
    by code_simp
  from file_loops_continue[of sample_runtime desk "root_files desk"] 1
  have "taken_up (organize_loop sample_runtime desk (root_files desk)) = [lit ''b.pdf'', lit ''c.py'']"
    by simp
  with 1 2 show ?thesis by (simp add: Let_def)
qed

section \<open>Organized folders\<close>

lemma find_append: "find P (xs @ ys) = (case find P xs of Some x \<Rightarrow> Some x | None \<Rightarrow> find P ys)"
  by (induction xs) auto

lemma lookup_node_append:
  "lookup_node (w\<lparr>root := root w @ ns\<rparr>) d =
     (case lookup_node w d of Some n \<Rightarrow> Some n | None \<Rightarrow> find (\<lambda>n. node_name n = d) ns)"
  by (simp add: lookup_node_def find_append split: option.splits)

lemma mkdir_idempotent: "is_folder w d \<Longrightarrow> mkdir_exist_ok w d = (w, None)"
  by (auto simp: is_folder_def mkdir_exist_ok_def split: option.splits node.splits)

lemma mkdir_ok:
  assumes "mkdir_exist_ok w d = (w', None)"
  shows "is_folder w' d"
    and "root w' = root w @ (if lookup_node w d = None then [Folder d []] else [])"
    and "logger w' = logger w"
  using assms
  by (auto simp: is_folder_def mkdir_exist_ok_def lookup_node_def find_append
      split: option.splits node.splits)

lemma is_folder_grow:
  "is_folder w d \<Longrightarrow> root w' = root w @ ns \<Longrightarrow> is_folder w' d"
  by (auto simp: is_folder_def lookup_node_def find_append split: option.splits node.splits)

lemma is_folder_log [simp]: "is_folder (log_line lv m w) d = is_folder w d"
  by (simp add: is_folder_def lookup_node_def)

lemma create_category_folders_ok:
  "create_category_folders w cats = (w', None) \<Longrightarrow>
   (\<forall>c\<in>set cats. is_folder w' (lit ''Organized_'' @ c)) \<and>
   (\<exists>ds. set ds \<subseteq> (\<lambda>c. lit ''Organized_'' @ c) ` set cats \<and> root w' = root w @ map (\<lambda>d. Folder d []) ds)"
proof (induction cats arbitrary: w)
  case Nil
  then show ?case by simp
next
  case (Cons c cats)
  let ?d = "lit ''Organized_'' @ c"
  obtain w1 r where mk: "mkdir_exist_ok w ?d = (w1, r)" by (cases "mkdir_exist_ok w ?d")
  with Cons.prems have r: "r = None"
    and rest: "create_category_folders (log_line INFO (Created_folder [?d]) w1) cats = (w', None)"
    by (cases r; simp)+
  from mk r have mk': "mkdir_exist_ok w ?d = (w1, None)" by simp
  from Cons.IH[OF rest] obtain ds where
    all: "\<forall>c\<in>set cats. is_folder w' (lit ''Organized_'' @ c)"
    and ds: "set ds \<subseteq> (\<lambda>c. lit ''Organized_'' @ c) ` set cats"
    and root: "root w' = root w1 @ map (\<lambda>d. Folder d []) ds"
    by auto
  from mkdir_ok(1)[OF mk'] root have "is_folder w' ?d" by (rule is_folder_grow)
  moreover
  let ?ds = "(if lookup_node w ?d = None then [?d] else []) @ ds"
  from mkdir_ok(2)[OF mk'] root have "root w' = root w @ map (\<lambda>d. Folder d []) ?ds" by simp
  moreover from ds have "set ?ds \<subseteq> (\<lambda>c. lit ''Organized_'' @ c) ` set (c # cats)" by auto
  ultimately show ?case using all by (metis set_ConsD)
qed

lemma create_organized_folders_ok:
  assumes "create_organized_folders w = (w', None)"
  shows "\<forall>d\<in>set organized_names. is_folder w' d"
    and "\<exists>ds. set ds \<subseteq> set organized_names \<and> root w' = root w @ map (\<lambda>d. Folder d []) ds"
proof -
  obtain w1 r where c: "create_category_folders w (map fst file_categories) = (w1, r)"
    by (cases "create_category_folders w (map fst file_categories)")
  with assms have r: "r = None" and mk: "mkdir_exist_ok w1 (lit ''Organized_Other'') = (w', None)"
    by (cases r; simp add: create_organized_folders_def)+
  from create_category_folders_ok[OF c[unfolded r]] obtain ds where
    all: "\<forall>c\<in>set (map fst file_categories). is_folder w1 (lit ''Organized_'' @ c)"
    and ds: "set ds \<subseteq> (\<lambda>c. lit ''Organized_'' @ c) ` set (map fst file_categories)"
    and root: "root w1 = root w @ map (\<lambda>d. Folder d []) ds"
    by auto
  have other: "lit ''Organized_Other'' = lit ''Organized_'' @ lit ''Other''" by (simp add: lit_def)
  from all mkdir_ok(2)[OF mk] have "\<forall>c\<in>set (map fst file_categories). is_folder w' (lit ''Organized_'' @ c)"
    using is_folder_grow by blast
  with mkdir_ok(1)[OF mk] show "\<forall>d\<in>set organized_names. is_folder w' d"
    by (auto simp: organized_names_def other)
  let ?ds = "ds @ (if lookup_node w1 (lit ''Organized_Other'') = None then [lit ''Organized_Other''] else [])"
  from mkdir_ok(2)[OF mk] root have "root w' = root w @ map (\<lambda>d. Folder d []) ?ds" by simp
  moreover from ds have "set ?ds \<subseteq> set organized_names" by (auto simp: organized_names_def other)
  ultimately show "\<exists>ds. set ds \<subseteq> set organized_names \<and> root w' = root w @ map (\<lambda>d. Folder d []) ds"
    by blast
qed


lemma create_category_folders_again:
  "\<forall>c\<in>set cats. is_folder w (lit ''Organized_'' @ c) \<Longrightarrow>
   snd (create_category_folders w cats) = None \<and> root (fst (create_category_folders w cats)) = root w \<and>
   (\<forall>d. is_folder (fst (create_category_folders w cats)) d = is_folder w d)"
proof (induction cats arbitrary: w)
  case Nil
  then show ?case by simp
next
  case (Cons c cats)
  let ?d = "lit ''Organized_'' @ c"
  let ?w1 = "log_line INFO (Created_folder [?d]) w"
  from Cons.prems have mk: "mkdir_exist_ok w ?d = (w, None)" by (simp add: mkdir_idempotent)
  from Cons.prems have "\<forall>c\<in>set cats. is_folder ?w1 (lit ''Organized_'' @ c)" by simp
  from Cons.IH[OF this] mk show ?case by simp
qed

lemma create_organized_folders_again:
  assumes "\<forall>d\<in>set organized_names. is_folder w d"
  shows "snd (create_organized_folders w) = None" "root (fst (create_organized_folders w)) = root w"
proof -
  have other: "lit ''Organized_Other'' = lit ''Organized_'' @ lit ''Other''" by (simp add: lit_def)
  from assms have cats: "\<forall>c\<in>set (map fst file_categories). is_folder w (lit ''Organized_'' @ c)"
    and oth: "is_folder w (lit ''Organized_Other'')"
    by (auto simp: organized_names_def other)
  obtain w1 r where c: "create_category_folders w (map fst file_categories) = (w1, r)"
    by (cases "create_category_folders w (map fst file_categories)")
  from create_category_folders_again[OF cats] c oth
  have r: "r = None" and root: "root w1 = root w" and f: "is_folder w1 (lit ''Organized_Other'')"
    by simp_all
  from mkdir_idempotent[OF f] c r root
  show "snd (create_organized_folders w) = None" "root (fst (create_organized_folders w)) = root w"
    by (simp_all add: create_organized_folders_def)
qed

lemma node_name_update_folder [simp]: "map node_name (update_folder d g ns) = map node_name ns"
  by (induction ns) (auto simp: update_folder_def split: node.splits)

lemma shutil_move_node_names:
  "shutil_move w [org] f d nf = Inr w' \<Longrightarrow> map node_name (root w') = map node_name (root w)"
  by (auto simp: shutil_move_def remove_at_def split: if_splits)

lemma ensure_dest_folder_root:
  "\<exists>ds. root (fst (ensure_dest_folder b w d)) = root w @ map (\<lambda>d. Folder d []) ds \<and>
        set ds \<subseteq> {d} \<and> (\<not> b \<longrightarrow> ds = [])"
proof (cases "b \<and> lookup_node w d = None")
  case True
  then have "root (fst (ensure_dest_folder b w d)) = root w @ map (\<lambda>d. Folder d []) [d]"
    by (simp add: ensure_dest_folder_def mkdir_exist_ok_def)
  with True show ?thesis by (intro exI[of _ "[d]"]) simp
next
  case False
  then have "root (fst (ensure_dest_folder b w d)) = root w"
    by (auto simp: ensure_dest_folder_def mkdir_exist_ok_def split: option.splits node.splits)
  then show ?thesis by (intro exI[of _ "[]"]) simp
qed

lemma apply_change_node_names:
  "\<exists>ds. map node_name (root (fst (fst (apply_change dry org cur f md mt nc nn (w, st))))) =
           map node_name (root w) @ ds \<and>
        set ds \<subseteq> {lit ''Organized_'' @ nc} \<and> (nc = cur \<longrightarrow> ds = [])"
proof -
  let ?nd = "if nc \<noteq> cur then lit ''Organized_'' @ nc else org"
  let ?mk = "ensure_dest_folder (nc \<noteq> cur) w ?nd"
  from ensure_dest_folder_root[of "nc \<noteq> cur" w ?nd] obtain ds where
    root: "root (fst ?mk) = root w @ map (\<lambda>d. Folder d []) ds" and ds: "set ds \<subseteq> {?nd}"
    and nods: "nc = cur \<longrightarrow> ds = []" by auto
  have names: "map node_name (root (fst ?mk)) = map node_name (root w) @ ds"
    unfolding root by (simp add: comp_def)
  have ds': "set ds \<subseteq> {lit ''Organized_'' @ nc}" using ds nods by (cases "nc = cur") auto
  have "map node_name (root (fst (fst (apply_change dry org cur f md mt nc nn (w, st))))) =
        map node_name (root (fst ?mk))"
  proof (cases rule: apply_change_cases[where nc = nc and cur = cur and w = w and org = org and f = f
      and nn = nn and dry = dry and md = md and mt = mt and st = st])
    case (moved w2)
    from shutil_move_node_names[OF moved(4)] moved(5) show ?thesis by simp
  qed simp_all
  with names ds' nods show ?thesis by auto
qed

lemma reanalyze_file_node_names:
  "\<exists>ds. map node_name (root (fst (fst (reanalyze_file rt dry org cur (w, st) f)))) =
           map node_name (root w) @ ds \<and>
        set ds \<subseteq> {lit ''Organized_'' @ snd (get_file_type rt f)} \<and>
        (snd (get_file_type rt f) = cur \<longrightarrow> ds = [])"
proof (cases rule: reanalyze_file_cases[where f = f and rt = rt and dry = dry and org = org
      and cur = cur and w = w and st = st])
  case (unchanged md nn w2)
  from generate_fields(1)[of rt _ "ename f" md "read_file_content rt f"] unchanged(3)
  have "root w2 = root w" by (metis log_line_fields(3) snd_conv)
  with unchanged show ?thesis by simp
next
  case (changed md nn w2)
  from generate_fields(1)[of rt _ "ename f" md "read_file_content rt f"] changed(3)
  have "root w2 = root w" by (metis log_line_fields(3) snd_conv)
  with changed(5) apply_change_node_names[of dry org cur f md "fst (get_file_type rt f)"
      "snd (get_file_type rt f)" nn w2 "st\<lparr>files_processed := files_processed st + 1\<rparr>"]
  show ?thesis by simp
qed simp_all

lemma get_file_type_category:
  "lit ''Organized_'' @ snd (get_file_type rt f) \<in> set organized_names"
proof (cases "is_file f")
  case False
  then show ?thesis by (simp add: get_file_type_def organized_names_def)
next
  case True
  show ?thesis
  proof (cases "categorize file_categories (py_lower rt (py_suffix (ename f)))")
    case None
    with True show ?thesis by (simp add: get_file_type_def organized_names_def)
  next
    case (Some c)
    from categorize_some_mem[OF this] have "c \<in> fst ` set file_categories" by force
    with True Some show ?thesis by (auto simp: get_file_type_def organized_names_def)
  qed
qed

lemma organized_names_flat: "\<forall>d\<in>set organized_names. 47 \<notin> set d"
  by code_simp

text \<open>
  C9, as amended.  Creating a folder that is already there changes nothing.  OrganizePass
  creates, before it looks at any file, each of the ten folders \<open>Organized_<Category>\<close>
  (the nine categories and \<open>Other\<close>) that is missing, as a direct child of the scanned
  folder, and leaves every other entry alone; doing so again changes nothing.  One step of
  ReconcilePass adds at most the folder of the file's new category to the scanned folder, and
  none when the category did not change.  The ten names are distinct and hold no path
  separator.
\<close>

theorem organized_folders_creation:
  "(is_folder w d \<longrightarrow> mkdir_exist_ok w d = (w, None)) \<and>
   (create_organized_folders w = (w', None) \<longrightarrow>
      (\<forall>d\<in>set organized_names. is_folder w' d) \<and>
      (\<exists>ds. set ds \<subseteq> set organized_names \<and> root w' = root w @ map (\<lambda>d. Folder d []) ds) \<and>
      snd (create_organized_folders w') = None \<and> root (fst (create_organized_folders w')) = root w') \<and>
   (\<exists>ds. map node_name (root (fst (fst (reanalyze_file rt dry_run org_folder current_category (w, st) f)))) =
            map node_name (root w) @ ds \<and>
         set ds \<subseteq> {lit ''Organized_'' @ snd (get_file_type rt f)} \<and>
         (snd (get_file_type rt f) = current_category \<longrightarrow> ds = [])) \<and>
   lit ''Organized_'' @ snd (get_file_type rt f) \<in> set organized_names \<and>
   length organized_names = 10 \<and> distinct organized_names \<and>
   (\<forall>d\<in>set organized_names. 47 \<notin> set d)"
proof -
  have "length organized_names = 10" "distinct organized_names" by code_simp+
  with create_organized_folders_ok[of w w'] create_organized_folders_again[of w']
    reanalyze_file_node_names[of rt dry_run org_folder current_category w st f]
    get_file_type_category[of rt f] organized_names_flat mkdir_idempotent[of w d]
  show ?thesis by blast
qed

text \<open>
  C9 as stated fails: OrganizePass on a folder without any file creates all ten folders.
\<close>

theorem organized_folders_creation_counterexample:
  "root_files offline = [] \<and> organized_folders offline = [] \<and>
   organized_folders (fst (organize_files_in_folder sample_runtime offline)) = organized_names"
  by code_simp

theorem organized_folders_creation_witness:
  "create_organized_folders offline = (fst (create_organized_folders offline), None) \<and>
   is_folder (fst (create_organized_folders offline)) (lit ''Organized_Code'') \<and>
   mkdir_exist_ok (fst (create_organized_folders offline)) (lit ''Organized_Code'')
     = (fst (create_organized_folders offline), None) \<and>
   root (fst (create_organized_folders (fst (create_organized_folders offline))))
     = root (fst (create_organized_folders offline)) \<and>
   lit ''Organized_Code'' \<in> set organized_names"
proof -
  let ?w' = "fst (create_organized_folders offline)"
  have "snd (create_organized_folders offline) = None" by code_simp
  then have ok: "create_organized_folders offline = (?w', None)"
    by (cases "create_organized_folders offline") simp
  have mem: "lit ''Organized_Code'' \<in> set organized_names" by code_simp
  note t = organized_folders_creation[where w = ?w' and d = "lit ''Organized_Code''"]
  note u = organized_folders_creation[where w = offline and w' = ?w']
  from u ok mem have f: "is_folder ?w' (lit ''Organized_Code'')" by blast
  with t have "mkdir_exist_ok ?w' (lit ''Organized_Code'') = (?w', None)" by blast
  moreover from u ok have "root (fst (create_organized_folders ?w')) = root ?w'" by blast
  ultimately show ?thesis using ok f mem by blast
qed

section \<open>The counters of ReconcilePass\<close>

lemma count_change_fields [simp]:
  "files_processed (count_change a b st) = files_processed st"
  "files_moved (count_change a b st) = files_moved st + (if a then 1 else 0)"
  "files_renamed (count_change a b st) = files_renamed st + (if b then 1 else 0)"
  "ai_improvements (count_change a b st) = ai_improvements st"
  by (simp_all add: count_change_def)

lemma count_improvement_fields [simp]:
  "files_processed (count_improvement b nn stem st) = files_processed st"
  "files_moved (count_improvement b nn stem st) = files_moved st"
  "files_renamed (count_improvement b nn stem st) = files_renamed st"
  "ai_improvements (count_improvement b nn stem st) =
     ai_improvements st + (if b \<and> length stem + 5 < length nn then 1 else 0)"
  by (simp_all add: count_improvement_def)

lemma apply_change_processed:
  "files_processed (snd (fst (apply_change dry org cur f md mt nc nn (w, st)))) = files_processed st"
  by (cases rule: apply_change_cases[where nc = nc and cur = cur and w = w and org = org and f = f
      and nn = nn and dry = dry and md = md and mt = mt and st = st]) simp_all

lemma reanalyze_file_processed:
  "files_processed (snd (fst (reanalyze_file rt dry org cur (w, st) f))) = files_processed st + 1"
  by (cases rule: reanalyze_file_cases[where f = f and rt = rt and dry = dry and org = org
      and cur = cur and w = w and st = st]) (simp_all add: apply_change_processed)

lemma reanalyze_files_processed:
  "files_processed (snd (reanalyze_files rt dry org cur (w, st) files)) = files_processed st + length files"
proof (induction files arbitrary: w st)
  case Nil
  then show ?case by simp
next
  case (Cons f files)
  obtain w1 st1 r where res: "reanalyze_file rt dry org cur (w, st) f = ((w1, st1), r)"
    by (cases "reanalyze_file rt dry org cur (w, st) f") auto
  with reanalyze_file_processed[of rt dry org cur w st f]
  have "files_processed st1 = files_processed st + 1" by simp
  with res Cons.IH show ?case by (cases r) simp_all
qed

text \<open>
  C4.  The counter is incremented before the test for system files, so a skipped file is
  counted too: on a folder holding only \<open>.DS_Store\<close> the pass reports one processed
  file, and in general the counter grows by the length of the listing.
\<close>

theorem files_processed_counts_skipped:
  "is_system_file (plain_file (lit ''.DS_Store'')) \<and>
   snd (reanalyze_organized_files rt ds_world dry_run) =
     Some \<lparr>files_processed = 1, files_renamed = 0, files_moved = 0, ai_improvements = 0\<rparr> \<and>
   files_processed (snd (reanalyze_files rt dry_run org_folder current_category (w, st) files)) =
     files_processed st + length files"
proof -
  have sys: "is_system_file (plain_file (lit ''.DS_Store''))"
    by (simp add: is_system_file_def plain_file_def system_files_def)
  have orgs: "organized_folders (log_line INFO Reanalyzing_in ds_world) = [lit ''Organized_Documents'']"
    by (simp add: organized_folders_def ds_world_def offline_def log_line_def startswith_def lit_def)
  have listing: "folder_listing (log_line lv m (log_line INFO Reanalyzing_in ds_world)) (lit ''Organized_Documents'')
      = [plain_file (lit ''.DS_Store'')]" for lv m
    by (simp add: folder_listing_def lookup_node_def ds_world_def offline_def log_line_def)
  have rex: "root_exists ds_world" by (simp add: ds_world_def offline_def)
  have isf: "is_file (plain_file (lit ''.DS_Store''))" by (simp add: is_file_def plain_file_def)
  have "snd (reanalyze_organized_files rt ds_world dry_run) =
     Some \<lparr>files_processed = 1, files_renamed = 0, files_moved = 0, ai_improvements = 0\<rparr>"
    using sys isf rex
    by (simp add: reanalyze_organized_files_def Let_def orgs listing reanalyze_file_def zero_stats_def)
  with sys reanalyze_files_processed show ?thesis by blast
qed

section \<open>Self-collision\<close>

lemma category_names_plain:
  "\<forall>c\<in>set (map fst file_categories @ [lit ''Other'']).
     py_replace (lit ''Organized_'') [] (lit ''Organized_'' @ c) = c"
  by code_simp

lemma current_category_of_dest:
  "py_replace (lit ''Organized_'') [] (lit ''Organized_'' @ snd (get_file_type rt f)) = snd (get_file_type rt f)"
proof -
  from get_file_type_category[of rt f]
  have "snd (get_file_type rt f) \<in> set (map fst file_categories @ [lit ''Other''])"
    unfolding organized_names_def by auto
  with category_names_plain show ?thesis by blast
qed

lemma existing_names_root: "root w' = root w \<Longrightarrow> existing_names w' d = existing_names w d"
  by (simp add: existing_names_def folder_listing_def lookup_node_def)

text \<open>
  C10.  In a live ReconcilePass, take a file that is not skipped, whose metadata can be read,
  whose recomputed file name differs from its current name, and whose conflict loop ends at
  the file's own path.  Then the step raises nothing, counts the file as processed and as
  renamed (and as moved if the category changed, which cannot happen together with a
  self-collision), and leaves the scanned folder and the action log as they were.
\<close>

theorem self_collision_counted:
  assumes nonsys: "\<not> is_system_file f"
      and meta: "extract_metadata rt f = Inr md"
      and naming: "generate_smart_filename rt (log_line INFO (Reanalyzing (ename f)) w) (ename f) md
                     (read_file_content rt f) = (new_name, w2)"
      and rename: "new_name @ py_suffix (ename f) \<noteq> ename f"
      and cur: "current_category = py_replace (lit ''Organized_'') [] org_folder"
      and dest: "(if snd (get_file_type rt f) \<noteq> current_category
                  then lit ''Organized_'' @ snd (get_file_type rt f) else org_folder) = org_folder"
      and self: "reanalyze_conflict_loop (existing_names w org_folder) org_folder [org_folder, ename f]
                   new_name (py_suffix (ename f)) (new_name @ py_suffix (ename f)) 1 = ename f"
  shows "\<exists>st'. reanalyze_file rt False org_folder current_category (w, st) f = ((w2, st'), None) \<and>
           files_processed st' = files_processed st + 1 \<and>
           files_renamed st' = files_renamed st + 1 \<and>
           files_moved st' = files_moved st +
             (if snd (get_file_type rt f) \<noteq> current_category then 1 else 0) \<and>
           root w2 = root w \<and> actions_log w2 = actions_log w"
proof -
  let ?nc = "snd (get_file_type rt f)"
  let ?st1 = "st\<lparr>files_processed := files_processed st + 1\<rparr>"
  have same: "?nc = current_category"
  proof (rule ccontr)
    assume ne: "?nc \<noteq> current_category"
    with dest have "org_folder = lit ''Organized_'' @ ?nc" by simp
    with cur current_category_of_dest[of rt f] ne show False by simp
  qed
  from naming have root: "root w2 = root w" and acts: "actions_log w2 = actions_log w"
    using generate_fields(1,3)[of rt "log_line INFO (Reanalyzing (ename f)) w" "ename f" md "read_file_content rt f"]
    by simp_all
  from self existing_names_root[OF root]
  have self2: "reanalyze_conflict_loop (existing_names w2 org_folder) org_folder [org_folder, ename f]
                   new_name (py_suffix (ename f)) (new_name @ py_suffix (ename f)) 1 = ename f" by simp
  let ?st' = "count_improvement True new_name (py_stem (ename f)) (count_change False True ?st1)"
  have "apply_change False org_folder current_category f md (fst (get_file_type rt f)) ?nc new_name (w2, ?st1)
        = ((w2, ?st'), None)"
    using same rename self2
    by (simp add: apply_change_def ensure_dest_folder_def Let_def)
  with nonsys meta naming rename same
  have "reanalyze_file rt False org_folder current_category (w, st) f = ((w2, ?st'), None)"
    by (simp add: reanalyze_file_def Let_def case_prod_beta)
  moreover have "files_processed ?st' = files_processed st + 1" "files_renamed ?st' = files_renamed st + 1"
    "files_moved ?st' = files_moved st" by simp_all
  ultimately show ?thesis using same root acts by auto
qed

theorem self_collision_counted_witness:
  "\<not> is_system_file (twin (lit ''hello_world_1.txt'')) \<and>
   fst (generate_smart_filename sample_runtime (log_line INFO (Reanalyzing (lit ''hello_world_1.txt'')) twins)
          (lit ''hello_world_1.txt'')
          \<lparr>original_name = lit ''hello_world_1.txt'', extension = lit ''.txt'', photo_date = None\<rparr>
          (lit ''hello world'')) = lit ''hello_world'' \<and>
   lit ''hello_world'' @ py_suffix (lit ''hello_world_1.txt'') \<noteq> lit ''hello_world_1.txt'' \<and>
   reanalyze_conflict_loop (existing_names twins (lit ''Organized_Documents'')) (lit ''Organized_Documents'')
     [lit ''Organized_Documents'', lit ''hello_world_1.txt''] (lit ''hello_world'') (lit ''.txt'')
     (lit ''hello_world'' @ lit ''.txt'') 1 = lit ''hello_world_1.txt'' \<and>
   (\<exists>w2 st'. reanalyze_file sample_runtime False (lit ''Organized_Documents'') (lit ''Documents'')
              (twins, zero_stats) (twin (lit ''hello_world_1.txt'')) = ((w2, st'), None) \<and>
            files_renamed st' = 1 \<and> files_moved st' = 0 \<and>
            root w2 = root twins \<and> actions_log w2 = actions_log twins)"
proof -
  let ?f = "twin (lit ''hello_world_1.txt'')"
  let ?md = "\<lparr>original_name = lit ''hello_world_1.txt'', extension = lit ''.txt'', photo_date = None\<rparr>"
  let ?w1 = "log_line INFO (Reanalyzing (lit ''hello_world_1.txt'')) twins"
  have nm: "ename ?f = lit ''hello_world_1.txt''" by (simp add: twin_def plain_file_def)
  have sfx: "py_suffix (lit ''hello_world_1.txt'') = lit ''.txt''" by code_simp
  have h1: "\<not> is_system_file ?f" by code_simp
  have h2: "extract_metadata sample_runtime ?f = Inr ?md" by code_simp
  have content: "read_file_content sample_runtime ?f = lit ''hello world''" by code_simp
  have "\<not> ai_client ?w1" by (simp add: twins_def offline_def log_line_def)
  then have g: "generate_smart_filename sample_runtime ?w1 (lit ''hello_world_1.txt'') ?md (lit ''hello world'')
      = (fallback_name sample_runtime (lit ''hello_world_1.txt'') ?md (lit ''hello world''), ?w1)"
    by (simp add: generate_smart_filename_def)
  have fb: "fallback_name sample_runtime (lit ''hello_world_1.txt'') ?md (lit ''hello world'') = lit ''hello_world''"
    by code_simp
  have h3: "generate_smart_filename sample_runtime (log_line INFO (Reanalyzing (ename ?f)) twins) (ename ?f) ?md
      (read_file_content sample_runtime ?f) = (lit ''hello_world'', ?w1)"
    unfolding nm content g fb ..
  have h4: "lit ''hello_world'' @ py_suffix (ename ?f) \<noteq> ename ?f"
    unfolding nm sfx by (simp add: lit_def)
  have h5: "lit ''Documents'' = py_replace (lit ''Organized_'') [] (lit ''Organized_Documents'')"
    by code_simp
  have cat: "snd (get_file_type sample_runtime ?f) = lit ''Documents''" by code_simp
  then have h6: "(if snd (get_file_type sample_runtime ?f) \<noteq> lit ''Documents''
                  then lit ''Organized_'' @ snd (get_file_type sample_runtime ?f) else lit ''Organized_Documents'')
                 = lit ''Organized_Documents''" by simp
  have loop: "reanalyze_conflict_loop (existing_names twins (lit ''Organized_Documents'')) (lit ''Organized_Documents'')
     [lit ''Organized_Documents'', lit ''hello_world_1.txt''] (lit ''hello_world'') (lit ''.txt'')
     (lit ''hello_world'' @ lit ''.txt'') 1 = lit ''hello_world_1.txt''"
    by code_simp
  then have h7: "reanalyze_conflict_loop (existing_names twins (lit ''Organized_Documents'')) (lit ''Organized_Documents'')
     [lit ''Organized_Documents'', ename ?f] (lit ''hello_world'') (py_suffix (ename ?f))
     (lit ''hello_world'' @ py_suffix (ename ?f)) 1 = ename ?f"
    unfolding nm sfx .
  from self_collision_counted[OF h1 h2 h3 h4 h5 h6 h7, of zero_stats] cat
  have "\<exists>st'. reanalyze_file sample_runtime False (lit ''Organized_Documents'') (lit ''Documents'')
              (twins, zero_stats) ?f = ((?w1, st'), None) \<and>
            files_renamed st' = 1 \<and> files_moved st' = 0 \<and>
            root ?w1 = root twins \<and> actions_log ?w1 = actions_log twins"
    by (auto simp: zero_stats_def)
  then have "\<exists>w2 st'. reanalyze_file sample_runtime False (lit ''Organized_Documents'') (lit ''Documents'')
              (twins, zero_stats) ?f = ((w2, st'), None) \<and>
            files_renamed st' = 1 \<and> files_moved st' = 0 \<and>
            root w2 = root twins \<and> actions_log w2 = actions_log twins"
    by blast
  moreover from h3 have "fst (generate_smart_filename sample_runtime ?w1 (lit ''hello_world_1.txt'') ?md
        (lit ''hello world'')) = lit ''hello_world''"
    unfolding nm content by simp
  ultimately show ?thesis using h1 h4[unfolded nm] loop by blast
qed

end
